theory Spec2Isabelle
  imports Complex_Main
begin

section \<open>Feed-forward neural networks (ann.hpp)\<close>

text \<open>
  The templates of ann.hpp are generic in the arithmetic type \<open>T\<close>; simulation.cpp
  holds the network states in \<open>float\<close>. In the embedding the weights, the inputs, the
  weighted sum and the feedback stage are real numbers with exact sums and products. The
  activation functions return a value of \<open>float\<close>: those that call \<open>std::exp\<close>
  or \<open>std::tanh\<close> are evaluated in the arithmetic of \<open>float\<close> below, with
  rounding, overflow to infinity and NaN. A state pointer \<open>T* state\<close> is a list of
  reals together with an offset; a function that writes through the pointer returns the
  updated list.
\<close>

subsection \<open>The arithmetic of float\<close>

text \<open>
  A value of \<open>float\<close> (IEEE 754 binary32) is a finite number, an infinity or NaN.
  Zero carries no sign here: a finite number other than zero divided by zero is the
  infinity with the sign of the numerator.
\<close>

datatype fval = Num real | PInf | NInf | NaN

text \<open>Rounding to the nearest integer, ties to the even one.\<close>

definition rne :: "real \<Rightarrow> int" where
  "rne m =
     (let f = \<lfloor>m\<rfloor>
      in if m - of_int f < 1 / 2 then f
         else if 1 / 2 < m - of_int f then f + 1
         else if even f then f else f + 1)"

text \<open>
  The binary exponent of \<open>x\<close>, not below the least exponent -126 of the normal
  numbers, and \<open>x\<close> rounded to 24 significant bits at that exponent.
\<close>

definition fexponent :: "real \<Rightarrow> int" where
  "fexponent x = max \<lfloor>log 2 \<bar>x\<bar>\<rfloor> (- 126)"

definition fl :: "real \<Rightarrow> real" where
  "fl x =
     (if x = 0 then 0
      else of_int (rne (x / 2 powi (fexponent x - 23))) * 2 powi (fexponent x - 23))"

text \<open>
  The result of an operation whose exact value is \<open>x\<close>: the greatest finite number is
  \<open>2^128 - 2^104\<close>, and from \<open>2^128 - 2^103\<close> on the rounded value is infinite.
\<close>

definition fround :: "real \<Rightarrow> fval" where
  "fround x =
     (if 2 ^ 128 - 2 ^ 103 \<le> x then PInf
      else if x \<le> - (2 ^ 128 - 2 ^ 103) then NInf
      else Num (fl x))"

fun fneg :: "fval \<Rightarrow> fval" where
  "fneg (Num a) = Num (- a)"
| "fneg PInf = NInf"
| "fneg NInf = PInf"
| "fneg NaN = NaN"

fun fadd :: "fval \<Rightarrow> fval \<Rightarrow> fval" where
  "fadd NaN y = NaN"
| "fadd x NaN = NaN"
| "fadd (Num a) (Num b) = fround (a + b)"
| "fadd PInf NInf = NaN"
| "fadd NInf PInf = NaN"
| "fadd PInf y = PInf"
| "fadd NInf y = NInf"
| "fadd x PInf = PInf"
| "fadd x NInf = NInf"

definition fsub :: "fval \<Rightarrow> fval \<Rightarrow> fval" where
  "fsub x y = fadd x (fneg y)"

fun fmul :: "fval \<Rightarrow> fval \<Rightarrow> fval" where
  "fmul NaN y = NaN"
| "fmul x NaN = NaN"
| "fmul (Num a) (Num b) = fround (a * b)"
| "fmul (Num a) PInf = (if a = 0 then NaN else if 0 < a then PInf else NInf)"
| "fmul (Num a) NInf = (if a = 0 then NaN else if 0 < a then NInf else PInf)"
| "fmul PInf (Num b) = (if b = 0 then NaN else if 0 < b then PInf else NInf)"
| "fmul NInf (Num b) = (if b = 0 then NaN else if 0 < b then NInf else PInf)"
| "fmul PInf PInf = PInf"
| "fmul PInf NInf = NInf"
| "fmul NInf PInf = NInf"
| "fmul NInf NInf = PInf"

fun fdiv :: "fval \<Rightarrow> fval \<Rightarrow> fval" where
  "fdiv NaN y = NaN"
| "fdiv x NaN = NaN"
| "fdiv (Num a) (Num b) =
     (if b = 0 then (if a = 0 then NaN else if 0 < a then PInf else NInf)
      else fround (a / b))"
| "fdiv (Num a) PInf = Num 0"
| "fdiv (Num a) NInf = Num 0"
| "fdiv PInf (Num b) = (if 0 \<le> b then PInf else NInf)"
| "fdiv NInf (Num b) = (if 0 \<le> b then NInf else PInf)"
| "fdiv PInf PInf = NaN"
| "fdiv PInf NInf = NaN"
| "fdiv NInf PInf = NaN"
| "fdiv NInf NInf = NaN"

text \<open>\<open>std::exp\<close> and \<open>std::tanh\<close> on \<open>float\<close>, taken as correctly rounded.\<close>

fun fexp :: "fval \<Rightarrow> fval" where
  "fexp (Num a) = fround (exp a)"
| "fexp PInf = PInf"
| "fexp NInf = Num 0"
| "fexp NaN = NaN"

fun ftanh :: "fval \<Rightarrow> fval" where
  "ftanh (Num a) = fround (tanh a)"
| "ftanh PInf = Num 1"
| "ftanh NInf = Num (- 1)"
| "ftanh NaN = NaN"

subsection \<open>Activation and feedback families\<close>

datatype activation =
    zero
  | identity
  | sgn_bipolar
  | sgn_unipolar
  | rtlu
  | tanh_bipolar
  | tanh_unipolar
  | sig_bipolar int int
  | sig_unipolar int int
  | varsig_bipolar
  | varsig_unipolar

datatype feedback = none | direct

text \<open>\<open>extra_state<size, scratch>::value\<close> of each activation family.\<close>

fun activation_value :: "activation \<Rightarrow> nat" where
  "activation_value varsig_bipolar = 1"
| "activation_value varsig_unipolar = 1"
| "activation_value _ = 0"

text \<open>\<open>extra_state<size, scratch>::value\<close> and \<open>::scratch\<close> of each feedback family.\<close>

fun feedback_value :: "feedback \<Rightarrow> nat" where
  "feedback_value none = 0"
| "feedback_value direct = 1"

fun feedback_scratch_size :: "feedback \<Rightarrow> nat" where
  "feedback_scratch_size none = 0"
| "feedback_scratch_size direct = 1"

text \<open>
  The declared output range \<open>(min, max)\<close> of an activation family. The first argument
  stands for \<open>std::numeric_limits<T>::max()\<close>.
\<close>

fun activation_range :: "real \<Rightarrow> activation \<Rightarrow> real \<times> real" where
  "activation_range tmax zero = (0, 0)"
| "activation_range tmax identity = (- tmax, tmax)"
| "activation_range tmax sgn_bipolar = (-1, 1)"
| "activation_range tmax sgn_unipolar = (0, 1)"
| "activation_range tmax rtlu = (0, tmax)"
| "activation_range tmax tanh_bipolar = (-1, 1)"
| "activation_range tmax tanh_unipolar = (0, 1)"
| "activation_range tmax (sig_bipolar n d) = (-1, 1)"
| "activation_range tmax (sig_unipolar n d) = (0, 1)"
| "activation_range tmax varsig_bipolar = (-1, 1)"
| "activation_range tmax varsig_unipolar = (0, 1)"

text \<open>
  \<open>Activation::apply(u, ps)\<close>: the pointer \<open>ps\<close> is the state list \<open>st\<close> at offset
  \<open>ofs\<close>, so \<open>ps[0]\<close> is \<open>st ! ofs\<close>. In the sigmoid family the slope
  \<open>static_cast<T>(-n) / d\<close>, its product with \<open>u\<close>, the exponential, the sum, the
  difference and the quotient are each an operation of \<open>float\<close>.
\<close>

fun activation_apply :: "activation \<Rightarrow> real \<Rightarrow> real list \<Rightarrow> nat \<Rightarrow> fval" where
  "activation_apply zero u st ofs = Num 0"
| "activation_apply identity u st ofs = Num u"
| "activation_apply sgn_bipolar u st ofs = Num (if u > 0 then -1 else 1)"
| "activation_apply sgn_unipolar u st ofs = Num (if u > 0 then 0 else 1)"
| "activation_apply rtlu u st ofs = Num (max 0 u)"
| "activation_apply tanh_bipolar u st ofs = ftanh (Num u)"
| "activation_apply tanh_unipolar u st ofs = fmul (Num 0.5) (fadd (ftanh (Num u)) (Num 1))"
| "activation_apply (sig_bipolar n d) u st ofs =
     (let a = fdiv (fround (of_int (- n))) (fround (of_int d));
          Exp = fexp (fmul a (Num u))
      in fdiv (fsub (Num 1) Exp) (fadd (Num 1) Exp))"
| "activation_apply (sig_unipolar n d) u st ofs =
     (let a = fdiv (fround (of_int (- n))) (fround (of_int d))
      in fdiv (Num 1) (fadd (Num 1) (fexp (fmul a (Num u)))))"
| "activation_apply varsig_bipolar u st ofs =
     (let Exp = fexp (fmul (Num (- (st ! ofs))) (Num u))
      in fdiv (fsub (Num 1) Exp) (fadd (Num 1) Exp))"
| "activation_apply varsig_unipolar u st ofs =
     fdiv (Num 1) (fadd (Num 1) (fexp (fmul (Num (- (st ! ofs))) (Num u))))"

text \<open>
  \<open>Feedback::apply(u, ps, scratch)\<close>: \<open>ps\<close> is \<open>st\<close> at offset \<open>pofs\<close> and \<open>scratch\<close>
  is \<open>st\<close> at offset \<open>sofs\<close>. The result is the returned value and the state after the
  call.
\<close>

fun feedback_apply :: "feedback \<Rightarrow> real \<Rightarrow> real list \<Rightarrow> nat \<Rightarrow> nat \<Rightarrow> real \<times> real list" where
  "feedback_apply none u st pofs sofs = (u, st)"
| "feedback_apply direct u st pofs sofs =
     (let v = u + st ! pofs * st ! sofs in (v, st[sofs := v]))"

subsection \<open>Neuron\<close>

text \<open>The template parameters of \<open>Neuron<Input, Activation, Feedback, Biased>\<close>.\<close>

record neuron =
  input_size :: nat
  activation_t :: activation
  feedback_t :: feedback
  biased :: bool

definition input_weights :: "neuron \<Rightarrow> nat" where
  "input_weights nt = input_size nt + (if biased nt then 1 else 0)"

definition activation_state :: "neuron \<Rightarrow> nat" where
  "activation_state nt = activation_value (activation_t nt)"

definition feedback_state :: "neuron \<Rightarrow> nat" where
  "feedback_state nt = feedback_value (feedback_t nt)"

definition feedback_scratch :: "neuron \<Rightarrow> nat" where
  "feedback_scratch nt = feedback_scratch_size (feedback_t nt)"

definition total_weights :: "neuron \<Rightarrow> nat" where
  "total_weights nt = input_weights nt + activation_state nt + feedback_state nt"

definition state_size :: "neuron \<Rightarrow> nat" where
  "state_size nt = total_weights nt + feedback_scratch nt"

definition activation_begin :: "neuron \<Rightarrow> nat" where
  "activation_begin nt = input_weights nt"

definition feedback_begin :: "neuron \<Rightarrow> nat" where
  "feedback_begin nt = activation_begin nt + activation_state nt"

definition feedback_scratch_begin :: "neuron \<Rightarrow> nat" where
  "feedback_scratch_begin nt = feedback_begin nt + feedback_state nt"

text \<open>
  The accumulation loops of the two \<open>feed\<close> overloads: \<open>u\<close> starts at the bias
  \<open>state[0]\<close> and \<open>i\<close> runs over \<open>1..input_size\<close> (biased), or \<open>u\<close> starts at 0 and
  \<open>i\<close> runs over \<open>0..input_size-1\<close> (unbiased).
\<close>

definition net_input :: "neuron \<Rightarrow> real list \<Rightarrow> real list \<Rightarrow> real" where
  "net_input nt inp st =
     (if biased nt
      then foldl (\<lambda>u i. u + st ! i * inp ! (i - 1)) (st ! 0) [1..<Suc (input_size nt)]
      else foldl (\<lambda>u i. u + st ! i * inp ! i) 0 [0..<input_size nt])"

text \<open>\<open>Neuron::feed(in, state)\<close>: the returned value and the state after the call.\<close>

definition feed :: "neuron \<Rightarrow> real list \<Rightarrow> real list \<Rightarrow> fval \<times> real list" where
  "feed nt inp st =
     (let u = net_input nt inp st;
          (v, st') = feedback_apply (feedback_t nt) u st (feedback_begin nt) (feedback_scratch_begin nt)
      in (activation_apply (activation_t nt) v st' (activation_begin nt), st'))"


section \<open>Simulation driver (simulation.cpp)\<close>

subsection \<open>Data\<close>

text \<open>
  \<open>Coordinate\<close>, \<open>Individual\<close>, \<open>Landscape\<close>, \<open>Population\<close> and \<open>Param\<close> are
  declared in headers outside simulation.cpp; the records below have the members that
  simulation.cpp reads and writes. Floats are reals. A layer is the flat array behind
  \<open>landscape_[Layers::l].data()\<close>. A pointer \<open>Individual*\<close> into \<open>agents_.pop\<close> is the
  index of the agent.
\<close>

type_synonym Coordinate = "int \<times> int"

record Individual =
  pos :: Coordinate
  foraging :: bool
  handling :: bool
  handle_time :: int

datatype Layers =
  capacity | items | foragers_count | foragers | klepts_count | klepts |
  handlers_count | handlers | temp

record Landscape =
  dim :: nat
  layer :: "Layers \<Rightarrow> real list"

record Population =
  pop :: "Individual list"
  tmp_pop :: "Individual list"
  ann :: "real list list"
  tmp_ann :: "real list list"
  fitness :: "real list"

record Simulation =
  landscape :: Landscape
  agents :: Population

record Param =
  max_item_cap :: real
  item_growth :: real
  detection_rate :: real
  flee_radius :: int
  sprout_radius :: int

text \<open>What \<open>archive::iarch::extract\<close> returns, with the blob already uncompressed.\<close>

record archive_entry =
  un :: nat
  usize :: nat
  blob :: "real list list"

text \<open>
  The functions that simulation.cpp calls and that are defined outside it. They are
  parameters of the model: \<open>Individual::handle\<close>, \<open>pick_item\<close>, \<open>do_handle\<close>,
  \<open>flee\<close> (landscape, radius, the position of the fight in the loop, which stands for
  the random numbers the call draws) and \<open>sprout\<close>; \<open>LayerView::operator()\<close> as the
  index \<open>cell d p\<close> of coordinate \<open>p\<close> in a layer of side \<open>d\<close>; \<open>Landscape::wrap\<close>;
  the contents \<open>occupancy L agents l\<close> that \<open>Landscape::update_occupancy\<close> writes to the
  layer \<open>l\<close> it is handed; \<open>AnyANN::move\<close>, \<open>mutate\<close> and \<open>type_size\<close>.
\<close>

record externals =
  handle :: "Individual \<Rightarrow> bool"
  pick_item :: "Individual \<Rightarrow> Individual"
  do_handle :: "Individual \<Rightarrow> Individual"
  flee :: "Landscape \<Rightarrow> int \<Rightarrow> nat \<Rightarrow> Individual \<Rightarrow> Individual"
  sprout :: "Individual \<Rightarrow> Coordinate \<Rightarrow> nat \<Rightarrow> Individual"
  cell :: "nat \<Rightarrow> Coordinate \<Rightarrow> nat"
  wrap :: "Landscape \<Rightarrow> Coordinate \<Rightarrow> Coordinate"
  occupancy :: "Landscape \<Rightarrow> Individual list \<Rightarrow> Layers \<Rightarrow> real list"
  move :: "Landscape \<Rightarrow> Individual list \<Rightarrow> Individual list"
  mutate :: "Param \<Rightarrow> bool \<Rightarrow> real list list \<Rightarrow> real list list"
  type_size :: "real list list \<Rightarrow> nat"

text \<open>
  The shared random engine \<open>rnd::reng\<close> as an oracle: the outcome of each draw, indexed
  by the position of the draw in its loop. \<open>grow i\<close> and \<open>detect i\<close> are the outcomes of
  the Bernoulli draws for cell \<open>i\<close> and agent \<open>i\<close>; \<open>rind\<close>, \<open>coorDist\<close> and
  \<open>initPos\<close> are raw numbers that a uniform distribution maps into its range; \<open>rdist i\<close>
  is the ancestor drawn for offspring slot \<open>i\<close>; \<open>shuffle\<close> is the permutation that
  \<open>std::shuffle\<close> applies.
\<close>

record rnd =
  grow :: "nat \<Rightarrow> bool"
  detect :: "nat \<Rightarrow> bool"
  rind :: "nat \<Rightarrow> int"
  shuffle :: "(nat \<times> nat) list \<Rightarrow> (nat \<times> nat) list"
  coorDist :: "nat \<Rightarrow> int \<times> int"
  initPos :: "nat \<Rightarrow> int \<times> int"
  rdist :: "nat \<Rightarrow> nat"

datatype error =
    LandscapeTooSmall
  | NumberOfANNsMismatch
  | ANNStateSizeMismatch
  | AttackedOutOfRange

text \<open>
  \<open>std::uniform_int_distribution(a, b)\<close> and \<open>rndutils::uniform_signed_distribution(a, b)\<close>
  return a value of the closed range from \<open>a\<close> to \<open>b\<close>: the raw number \<open>r\<close> is reduced
  into it.
\<close>

definition uniform_int_distribution :: "int \<Rightarrow> int \<Rightarrow> int \<Rightarrow> int" where
  "uniform_int_distribution a b r = a + r mod (b - a + 1)"

text \<open>
  Modelled from the spec: \<open>Coordinate::operator+\<close> is declared outside simulation.cpp;
  coordinates are integer pairs and are added by component.
\<close>

definition Coordinate_plus :: "Coordinate \<Rightarrow> Coordinate \<Rightarrow> Coordinate" where
  "Coordinate_plus p q = (fst p + fst q, snd p + snd q)"

text \<open>
  Modelled from the spec: \<open>AnyANN::assign(source_collection, src_index, dst_index)\<close> is
  declared outside simulation.cpp; it copies one individual's full state block to another
  slot.
\<close>

definition assign :: "real list list \<Rightarrow> real list list \<Rightarrow> nat \<Rightarrow> nat \<Rightarrow> real list list" where
  "assign dst src i j = dst[j := src ! i]"

text \<open>
  \<open>Landscape::update_occupancy\<close> is handed the six count and density layers and writes
  those; every other layer keeps its contents.
\<close>

definition update_occupancy :: "externals \<Rightarrow> Landscape \<Rightarrow> Individual list \<Rightarrow> Landscape" where
  "update_occupancy E L agents_pop =
     L\<lparr>layer := (\<lambda>l. if l \<in> {foragers_count, foragers, klepts_count, klepts, handlers_count, handlers}
                       then occupancy E L agents_pop l else layer L l)\<rparr>"

subsection \<open>Construction\<close>

text \<open>The loop "full grass cover" of the constructor, over \<open>i = 0 .. DD - 1\<close>.\<close>

definition init_items :: "Param \<Rightarrow> nat \<Rightarrow> real list \<Rightarrow> real list \<Rightarrow> real list" where
  "init_items P DD capacity_l items_l =
     foldl (\<lambda>its i. its[i := real_of_int \<lfloor>capacity_l ! i * max_item_cap P\<rfloor>]) items_l [0..<DD]"

definition init_anns_from_archive :: "externals \<Rightarrow> Population \<Rightarrow> archive_entry \<Rightarrow> error + Population" where
  "init_anns_from_archive E Pop cm =
     (if un cm \<noteq> length (ann Pop) then Inl NumberOfANNsMismatch
      else if usize cm \<noteq> type_size E (ann Pop) then Inl ANNStateSizeMismatch
      else Inr (Pop\<lparr>ann := blob cm\<rparr>))"

text \<open>
  \<open>Simulation::Simulation\<close>. \<open>L0\<close> is the landscape after \<open>init_layer\<close> has read the
  capacity image, \<open>A0\<close> the population as allocated, \<open>arch\<close> the entry of the optional
  archive of a former run.
\<close>

definition Simulation_init :: "externals \<Rightarrow> Param \<Rightarrow> rnd \<Rightarrow> Landscape \<Rightarrow> Population \<Rightarrow>
    archive_entry option \<Rightarrow> error + Simulation" where
  "Simulation_init E P R L0 A0 arch =
     (if dim L0 < 32 then Inl LandscapeTooSmall
      else
        (let DD = dim L0 * dim L0;
             L1 = L0\<lparr>layer := (layer L0)(items := init_items P DD (layer L0 capacity) (layer L0 items))\<rparr>;
             pop1 = map (\<lambda>k. (pop A0 ! k)
                           \<lparr>pos := (uniform_int_distribution 0 (int (dim L1) - 1) (fst (initPos R k)),
                                   uniform_int_distribution 0 (int (dim L1) - 1) (snd (initPos R k)))\<rparr>)
                        [0..<length (pop A0)];
             L2 = update_occupancy E L1 pop1;
             A1 = A0\<lparr>pop := pop1\<rparr>
         in case arch of
              None \<Rightarrow> Inr \<lparr>landscape = L2, agents = A1\<rparr>
            | Some cm \<Rightarrow>
                (case init_anns_from_archive E A1 cm of
                   Inl e \<Rightarrow> Inl e
                 | Inr A2 \<Rightarrow> Inr \<lparr>landscape = L2, agents = A2\<rparr>)))"

subsection \<open>One timestep\<close>

text \<open>The loop "grass growth" of \<open>simulate_timestep\<close>, over \<open>i = 0 .. DD - 1\<close>.\<close>

definition grow_items :: "Param \<Rightarrow> rnd \<Rightarrow> nat \<Rightarrow> real list \<Rightarrow> real list \<Rightarrow> real list" where
  "grow_items P R DD capacity_l items_l =
     foldl (\<lambda>its i.
              if grow R i
              then its[i := min (real_of_int \<lfloor>capacity_l ! i * max_item_cap P\<rfloor>)
                                (real_of_int \<lfloor>its ! i + 1\<rfloor>)]
              else its)
           items_l [0..<DD]"

text \<open>
  The first loop of \<open>resolve_grazing_and_attacks\<close>, over the agents in order: agent
  number \<open>i\<close> is the head of the list, \<open>its\<close> is the items layer. The result is the
  agents and the items layer after the loop.
\<close>

fun graze :: "externals \<Rightarrow> rnd \<Rightarrow> nat \<Rightarrow> nat \<Rightarrow> Individual list \<Rightarrow> real list \<Rightarrow>
    Individual list \<times> real list" where
  "graze E R d i [] its = ([], its)"
| "graze E R d i (a # as) its =
     (if \<not> handle E a \<and> foraging a \<and> its ! cell E d (pos a) \<ge> 1 \<and> detect R i
      then (let r = graze E R d (Suc i) as (its[cell E d (pos a) := its ! cell E d (pos a) - 1])
            in (pick_item E a # fst r, snd r))
      else (let r = graze E R d (Suc i) as its
            in (a # fst r, snd r)))"

text \<open>The second loop: the indices pushed to \<open>attacking_inds_\<close>; \<open>hs\<close> is the handlers layer.\<close>

definition collect_attackers :: "externals \<Rightarrow> nat \<Rightarrow> Individual list \<Rightarrow> real list \<Rightarrow> nat list" where
  "collect_attackers E d agents_pop hs =
     filter (\<lambda>i. \<not> handling (agents_pop ! i) \<and> \<not> foraging (agents_pop ! i) \<and>
                 hs ! cell E d (pos (agents_pop ! i)) \<ge> 1)
            [0..<length agents_pop]"

text \<open>The inner loop of the third loop: what is pushed to \<open>attacked_potentially_\<close> for attacker \<open>i\<close>.\<close>

definition attacked_potentially :: "Individual list \<Rightarrow> nat \<Rightarrow> nat list" where
  "attacked_potentially agents_pop i =
     filter (\<lambda>j. pos (agents_pop ! i) = pos (agents_pop ! j) \<and> i \<noteq> j \<and> handling (agents_pop ! j))
            [0..<length agents_pop]"

text \<open>
  The third loop, over \<open>attacking_inds_\<close>: what is pushed to \<open>attacked_inds\<close>. \<open>k\<close>
  counts the attackers already visited.
\<close>

fun select_attacked :: "rnd \<Rightarrow> Individual list \<Rightarrow> nat \<Rightarrow> nat list \<Rightarrow> nat list" where
  "select_attacked R agents_pop k [] = []"
| "select_attacked R agents_pop k (i # is) =
     (let pot = attacked_potentially agents_pop i
      in if pot \<noteq> []
         then (let focal_ind = uniform_int_distribution 0 (int (length pot) - 1) (rind R k)
               in pot ! nat focal_ind # select_attacked R agents_pop (Suc k) is)
         else select_attacked R agents_pop (Suc k) is)"

text \<open>
  The loop that fills \<open>conflicts_v\<close> reads \<open>attacked_inds[i]\<close> for every
  \<open>i < attacking_inds_.size()\<close>; a read past the end of \<open>attacked_inds\<close> is the error
  \<open>AttackedOutOfRange\<close>.
\<close>

definition make_conflicts :: "nat list \<Rightarrow> nat list \<Rightarrow> error + (nat \<times> nat) list" where
  "make_conflicts attacking_inds attacked_inds =
     (if length attacked_inds < length attacking_inds then Inl AttackedOutOfRange
      else Inr (map (\<lambda>i. (attacking_inds ! i, attacked_inds ! i)) [0..<length attacking_inds]))"

text \<open>
  The body of the last loop for index \<open>i\<close>. \<open>fight\<close> and \<open>initiator_wins\<close> are draws
  from \<open>std::bernoulli_distribution(1.0)\<close>, which are always true.
\<close>

definition fight_step :: "externals \<Rightarrow> Landscape \<Rightarrow> Param \<Rightarrow> nat list \<Rightarrow> nat list \<Rightarrow>
    Individual list \<Rightarrow> nat \<Rightarrow> Individual list" where
  "fight_step E L P attacking_inds attacked_inds agents_pop i =
     (let a = attacking_inds ! i;
          v = attacked_inds ! i;
          fight = True;
          initiator_wins = True
      in if handling (agents_pop ! v)
         then if fight
              then if initiator_wins
                   then (let pop1 = agents_pop[a := (agents_pop ! a)\<lparr>handling := handling (agents_pop ! v)\<rparr>];
                             pop2 = pop1[a := (pop1 ! a)\<lparr>handle_time := handle_time (pop1 ! v)\<rparr>]
                         in pop2[v := flee E L (flee_radius P) i (pop2 ! v)])
                   else agents_pop[a := flee E L (flee_radius P) i (agents_pop ! a)]
              else agents_pop
         else agents_pop)"

definition resolve_fights :: "externals \<Rightarrow> Landscape \<Rightarrow> Param \<Rightarrow> nat list \<Rightarrow> nat list \<Rightarrow>
    Individual list \<Rightarrow> Individual list" where
  "resolve_fights E L P attacking_inds attacked_inds agents_pop =
     foldl (fight_step E L P attacking_inds attacked_inds) agents_pop [0..<length attacking_inds]"

text \<open>
  \<open>Simulation::resolve_grazing_and_attacks\<close>. \<open>old_grass.copy(handlers)\<close> writes the
  handlers layer to the scratch layer. \<open>conflicts_v\<close> is filled, shuffled and cleared;
  the last loop reads \<open>attacking_inds_\<close> and \<open>attacked_inds\<close>.
\<close>

definition resolve_grazing_and_attacks :: "externals \<Rightarrow> Param \<Rightarrow> rnd \<Rightarrow> Simulation \<Rightarrow> error + Simulation" where
  "resolve_grazing_and_attacks E P R S =
     (let L = landscape S;
          L1 = L\<lparr>layer := (layer L)(temp := layer L handlers)\<rparr>;
          g = graze E R (dim L1) 0 (pop (agents S)) (layer L1 items);
          pop1 = fst g;
          L2 = L1\<lparr>layer := (layer L1)(items := snd g)\<rparr>;
          attacking_inds = collect_attackers E (dim L2) pop1 (layer L2 handlers);
          attacked_inds = select_attacked R pop1 0 attacking_inds
      in case make_conflicts attacking_inds attacked_inds of
           Inl e \<Rightarrow> Inl e
         | Inr conflicts \<Rightarrow>
             (let conflicts_v = shuffle R conflicts;
                  pop2 = resolve_fights E L2 P attacking_inds attacked_inds pop1
              in Inr (S\<lparr>landscape := L2, agents := (agents S)\<lparr>pop := pop2\<rparr>\<rparr>)))"

text \<open>
  \<open>Simulation::simulate_timestep\<close> up to the call of \<open>resolve_grazing_and_attacks\<close>:
  item growth, \<open>do_handle\<close> for every agent, \<open>update_occupancy\<close>, \<open>move\<close>.
\<close>

definition timestep_before_resolve :: "externals \<Rightarrow> Param \<Rightarrow> rnd \<Rightarrow> Simulation \<Rightarrow> Simulation" where
  "timestep_before_resolve E P R S =
     (let L = landscape S;
          DD = dim L * dim L;
          L1 = L\<lparr>layer := (layer L)(items := grow_items P R DD (layer L capacity) (layer L items))\<rparr>;
          pop1 = map (do_handle E) (pop (agents S));
          L2 = update_occupancy E L1 pop1;
          pop2 = move E L2 pop1
      in S\<lparr>landscape := L2, agents := (agents S)\<lparr>pop := pop2\<rparr>\<rparr>)"

text \<open>\<open>Simulation::simulate_timestep\<close>: the above, conflict resolution, \<open>update_occupancy\<close>.\<close>

definition simulate_timestep :: "externals \<Rightarrow> Param \<Rightarrow> rnd \<Rightarrow> Simulation \<Rightarrow> error + Simulation" where
  "simulate_timestep E P R S =
     (case resolve_grazing_and_attacks E P R (timestep_before_resolve E P R S) of
        Inl e \<Rightarrow> Inl e
      | Inr S' \<Rightarrow> Inr (S'\<lparr>landscape := update_occupancy E (landscape S') (pop (agents S'))\<rparr>))"

subsection \<open>A new generation\<close>

text \<open>
  The body of the loop of \<open>detail::create_new_generation\<close> for offspring slot \<open>i\<close>.
  \<open>coorDist\<close> is \<open>uniform_signed_distribution(-sprout_radius, sprout_radius)\<close>.
\<close>

definition sprout_slot :: "externals \<Rightarrow> Landscape \<Rightarrow> Param \<Rightarrow> rnd \<Rightarrow> Population \<Rightarrow> nat \<Rightarrow> Population" where
  "sprout_slot E L iparam R population i =
     (let ancestor = rdist R i;
          offset = (uniform_int_distribution (- sprout_radius iparam) (sprout_radius iparam) (fst (coorDist R i)),
                    uniform_int_distribution (- sprout_radius iparam) (sprout_radius iparam) (snd (coorDist R i)));
          newPos = Coordinate_plus (pos (pop population ! ancestor)) offset
      in population
           \<lparr>tmp_pop := (tmp_pop population)[i := sprout E (tmp_pop population ! i) (wrap E L newPos) ancestor],
            tmp_ann := assign (tmp_ann population) (ann population) ancestor i\<rparr>)"

definition stage_offspring :: "externals \<Rightarrow> Landscape \<Rightarrow> Param \<Rightarrow> rnd \<Rightarrow> Population \<Rightarrow> Population" where
  "stage_offspring E L iparam R population =
     foldl (sprout_slot E L iparam R) population [0..<length (pop population)]"

text \<open>\<open>create_new_generation\<close> up to the two swaps: the loop, then \<open>tmp_ann->mutate\<close>.\<close>

definition stage_generation :: "externals \<Rightarrow> Landscape \<Rightarrow> Param \<Rightarrow> bool \<Rightarrow> rnd \<Rightarrow> Population \<Rightarrow> Population" where
  "stage_generation E L iparam fixed R population =
     (let p1 = stage_offspring E L iparam R population
      in p1\<lparr>tmp_ann := mutate E iparam fixed (tmp_ann p1)\<rparr>)"

definition create_new_generation :: "externals \<Rightarrow> Landscape \<Rightarrow> Param \<Rightarrow> bool \<Rightarrow> rnd \<Rightarrow> Population \<Rightarrow> Population" where
  "create_new_generation E L iparam fixed R population =
     (let p2 = stage_generation E L iparam fixed R population
      in p2\<lparr>pop := tmp_pop p2, tmp_pop := pop p2, ann := tmp_ann p2, tmp_ann := ann p2\<rparr>)"

subsection \<open>Externals for the examples\<close>

text \<open>
  Modelled from the spec: the members of \<open>Individual\<close>, \<open>Landscape\<close> and \<open>AnyANN\<close>
  that simulation.cpp calls are declared outside it. The examples below run the model
  with these: an agent is busy while it handles; picking an item starts handling;
  \<open>do_handle\<close> counts the timer down and ends handling at zero; a fleeing agent leaves
  the handling state and relocates within the radius, wrapped on the torus; a sprouted
  agent starts at the given position, not handling; layers are stored row by row; the
  count and density layers of a role hold the number of agents of that role on each cell
  (a kernel of the single cell); \<open>move\<close> and \<open>mutate\<close> change nothing.
\<close>

definition example_wrap :: "Landscape \<Rightarrow> Coordinate \<Rightarrow> Coordinate" where
  "example_wrap L p = (fst p mod int (dim L), snd p mod int (dim L))"

definition example_cell :: "nat \<Rightarrow> Coordinate \<Rightarrow> nat" where
  "example_cell d p = nat (snd p) * d + nat (fst p)"

definition example_role :: "Layers \<Rightarrow> Individual \<Rightarrow> bool" where
  "example_role l a =
     (if l = handlers_count \<or> l = handlers then handling a
      else if l = foragers_count \<or> l = foragers then \<not> handling a \<and> foraging a
      else \<not> handling a \<and> \<not> foraging a)"

definition example_occupancy :: "Landscape \<Rightarrow> Individual list \<Rightarrow> Layers \<Rightarrow> real list" where
  "example_occupancy L agents_pop l =
     map (\<lambda>c. real (length (filter (\<lambda>a. example_role l a \<and> example_cell (dim L) (pos a) = c) agents_pop)))
         [0..<dim L * dim L]"

definition example_externals :: externals where
  "example_externals =
     \<lparr>handle = (\<lambda>a. handling a),
      pick_item = (\<lambda>a. a\<lparr>handling := True, handle_time := 5\<rparr>),
      do_handle = (\<lambda>a. if handling a
                        then (if handle_time a \<le> 1 then a\<lparr>handling := False, handle_time := 0\<rparr>
                              else a\<lparr>handle_time := handle_time a - 1\<rparr>)
                        else a),
      flee = (\<lambda>L r k a. a\<lparr>pos := example_wrap L (Coordinate_plus (pos a) (r, r)), handling := False\<rparr>),
      sprout = (\<lambda>a p k. a\<lparr>pos := p, handling := False, handle_time := 0\<rparr>),
      cell = example_cell,
      wrap = example_wrap,
      occupancy = example_occupancy,
      move = (\<lambda>L agents_pop. agents_pop),
      mutate = (\<lambda>iparam fixed anns. anns),
      type_size = (\<lambda>anns. case anns of [] \<Rightarrow> 0 | s # _ \<Rightarrow> length s)\<rparr>"

section \<open>Properties of the network engine\<close>

subsection \<open>Hard-limit activation\<close>

text \<open>
  C4. The claim reads the hard-limit activation as the step of the sign of \<open>u\<close>: +1
  (bipolar) or 1 (unipolar) for positive \<open>u\<close>, -1 or 0 otherwise. The code has the two
  branches the other way round: at the positive input \<open>u = 1\<close> the bipolar variant
  returns -1 and the unipolar variant returns 0, and at \<open>u = -1\<close> they return +1 and 1;
  for every \<open>u\<close> the result depends on \<open>u\<close> alone.
\<close>

theorem sgn_apply_positive_input:
  "activation_apply sgn_bipolar 1 [] 0 = Num (-1) \<and> activation_apply sgn_unipolar 1 [] 0 = Num 0 \<and>
   activation_apply sgn_bipolar (-1) [] 0 = Num 1 \<and> activation_apply sgn_unipolar (-1) [] 0 = Num 1 \<and>
   activation_apply sgn_bipolar u st ofs = Num (if u > 0 then -1 else 1) \<and>
   activation_apply sgn_unipolar u st ofs = Num (if u > 0 then 0 else 1)"
  by simp

subsection \<open>Neuron evaluation\<close>

lemma foldl_biased_sum:
  "foldl (\<lambda>u i. u + st ! i * inp ! (i - 1)) b [1..<Suc n] = b + (\<Sum>i<n. st ! Suc i * (inp ! i :: real))"
proof (induction n)
  case 0
  show ?case by simp
next
  case (Suc n)
  have "[1..<Suc (Suc n)] = [1..<Suc n] @ [Suc n]"
    by (rule upt_Suc_append) simp
  then show ?case using Suc by simp
qed

lemma foldl_unbiased_sum:
  "foldl (\<lambda>u i. u + st ! i * inp ! i) b [0..<n] = b + (\<Sum>i<n. st ! i * (inp ! i :: real))"
  by (induction n) simp_all

lemma net_input_sum:
  "net_input nt inp st =
     (if biased nt then st ! 0 + (\<Sum>i<input_size nt. st ! Suc i * inp ! i)
      else (\<Sum>i<input_size nt. st ! i * inp ! i))"
  unfolding net_input_def foldl_biased_sum foldl_unbiased_sum by simp

lemma state_layout:
  "activation_begin nt = input_weights nt \<and>
   feedback_begin nt = activation_begin nt + activation_state nt \<and>
   feedback_scratch_begin nt = feedback_begin nt + feedback_state nt \<and>
   state_size nt = feedback_scratch_begin nt + feedback_scratch nt"
  by (simp add: activation_begin_def feedback_begin_def feedback_scratch_begin_def
      state_size_def total_weights_def)

text \<open>
  C6. For every neuron type, an input vector of \<open>input_size\<close> elements and a state slice
  of \<open>state_size\<close> elements, \<open>feed\<close> computes the weighted sum \<open>u\<close> (the bias
  \<open>state[0]\<close> plus the sum of \<open>state[i + 1] * in[i]\<close> when biased, the sum of
  \<open>state[i] * in[i]\<close> when unbiased), applies the feedback function to \<open>u\<close> at the
  feedback-parameter and feedback-scratch offsets, applies the activation function to
  that result at the activation offset and returns its value. The four sub-ranges
  (weights, activation parameters, feedback parameters, feedback scratch) follow each
  other and fill the slice.
\<close>

theorem feed_weighted_sum_feedback_activation:
  assumes "length inp = input_size nt" and "length st = state_size nt"
  shows "feed nt inp st =
           (let u = (if biased nt
                     then st ! 0 + (\<Sum>i<input_size nt. st ! Suc i * inp ! i)
                     else (\<Sum>i<input_size nt. st ! i * inp ! i));
                fb = feedback_apply (feedback_t nt) u st (feedback_begin nt) (feedback_scratch_begin nt)
            in (activation_apply (activation_t nt) (fst fb) (snd fb) (activation_begin nt), snd fb)) \<and>
         activation_begin nt = input_size nt + (if biased nt then 1 else 0) \<and>
         feedback_begin nt = activation_begin nt + activation_state nt \<and>
         feedback_scratch_begin nt = feedback_begin nt + feedback_state nt \<and>
         feedback_scratch_begin nt + feedback_scratch nt = length st"
proof -
  have "feed nt inp st =
           (let u = (if biased nt
                     then st ! 0 + (\<Sum>i<input_size nt. st ! Suc i * inp ! i)
                     else (\<Sum>i<input_size nt. st ! i * inp ! i));
                fb = feedback_apply (feedback_t nt) u st (feedback_begin nt) (feedback_scratch_begin nt)
            in (activation_apply (activation_t nt) (fst fb) (snd fb) (activation_begin nt), snd fb))"
    unfolding feed_def net_input_sum by (simp add: Let_def split: prod.split)
  moreover have "activation_begin nt = input_size nt + (if biased nt then 1 else 0)"
    by (simp add: activation_begin_def input_weights_def)
  moreover note state_layout [of nt]
  ultimately show ?thesis using assms(2) by simp
qed

theorem feed_weighted_sum_feedback_activation_witness:
  "feed \<lparr>input_size = 2, activation_t = identity, feedback_t = direct, biased = True\<rparr>
        [10, 20] [1, 2, 3, 1 / 2, 4] = (Num 83, [1, 2, 3, 1 / 2, 83]) \<and>
   feedback_scratch_begin \<lparr>input_size = 2, activation_t = identity, feedback_t = direct, biased = True\<rparr> = 4"
  using feed_weighted_sum_feedback_activation
     [of "[10, 20]" "\<lparr>input_size = 2, activation_t = identity, feedback_t = direct, biased = True\<rparr>"
         "[1, 2, 3, 1 / 2, 4]"]
  by (simp add: state_size_def total_weights_def input_weights_def activation_state_def
      feedback_state_def feedback_scratch_def feedback_begin_def feedback_scratch_begin_def
      activation_begin_def Let_def eval_nat_numeral)

subsection \<open>Feedback\<close>

lemma feed_none_state:
  assumes "feedback_t nt = none"
  shows "snd (feed nt inp st) = st"
  using assms by (simp add: feed_def Let_def)

lemma scratch_in_state:
  assumes "feedback_t nt = direct" and "length st = state_size nt"
  shows "feedback_scratch nt = 1 \<and> feedback_scratch_begin nt < length st \<and>
         feedback_begin nt < feedback_scratch_begin nt"
  using assms
  by (simp add: state_size_def total_weights_def feedback_scratch_def feedback_state_def
      feedback_scratch_begin_def feedback_begin_def activation_begin_def)

text \<open>
  C7. With direct feedback the feedback stage returns \<open>u + gain * previous_output\<close>,
  where the gain is the one feedback parameter and \<open>previous_output\<close> is the one scratch
  element of the slice, and the scratch element is overwritten with the returned value.
  With no feedback the stage returns \<open>u\<close> and the state as it was. For a neuron without
  direct feedback, \<open>feed\<close> leaves the state unchanged, so a second call on the same
  input returns the same pair.
\<close>

theorem feedback_direct_and_none:
  assumes "length st = state_size nt"
  shows "(feedback_t nt = direct \<longrightarrow>
            (let gain = st ! feedback_begin nt;
                 previous_output = st ! feedback_scratch_begin nt;
                 out = u + gain * previous_output;
                 r = feedback_apply (feedback_t nt) u st (feedback_begin nt) (feedback_scratch_begin nt)
             in feedback_scratch nt = 1 \<and> feedback_scratch_begin nt < length st \<and>
                fst r = out \<and> snd r = st[feedback_scratch_begin nt := out] \<and>
                snd r ! feedback_scratch_begin nt = out)) \<and>
         (feedback_t nt = none \<longrightarrow>
            feedback_apply (feedback_t nt) u st (feedback_begin nt) (feedback_scratch_begin nt) = (u, st)) \<and>
         (feedback_t nt \<noteq> direct \<longrightarrow>
            snd (feed nt inp st) = st \<and>
            feed nt inp (snd (feed nt inp st)) = feed nt inp st)"
proof (cases "feedback_t nt")
  case none
  then show ?thesis by (simp add: feed_none_state)
next
  case direct
  then show ?thesis using scratch_in_state [OF direct assms] by (simp add: Let_def)
qed

theorem feedback_direct_and_none_witness:
  "feedback_apply direct 81 [1, 2, 3, 1 / 2, 4] 3 4 = (83, [1, 2, 3, 1 / 2, 83]) \<and>
   feed \<lparr>input_size = 2, activation_t = tanh_bipolar, feedback_t = none, biased = False\<rparr>
        [10, 20] (snd (feed \<lparr>input_size = 2, activation_t = tanh_bipolar, feedback_t = none, biased = False\<rparr> [10, 20] [1, 2])) =
   feed \<lparr>input_size = 2, activation_t = tanh_bipolar, feedback_t = none, biased = False\<rparr> [10, 20] [1, 2] \<and>
   snd (feed \<lparr>input_size = 2, activation_t = tanh_bipolar, feedback_t = none, biased = False\<rparr> [10, 20] [1, 2]) = [1, 2]"
proof -
  let ?d = "\<lparr>input_size = 2, activation_t = identity, feedback_t = direct, biased = True\<rparr>"
  let ?n = "\<lparr>input_size = 2, activation_t = tanh_bipolar, feedback_t = none, biased = False\<rparr>"
  have ld: "length [1, 2, 3, 1 / 2, 4 :: real] = state_size ?d"
    by (simp add: state_size_def total_weights_def input_weights_def activation_state_def
        feedback_state_def feedback_scratch_def)
  have ln: "length [1, 2 :: real] = state_size ?n"
    by (simp add: state_size_def total_weights_def input_weights_def activation_state_def
        feedback_state_def feedback_scratch_def)
  have od: "feedback_begin ?d = 3 \<and> feedback_scratch_begin ?d = 4"
    by (simp add: feedback_begin_def feedback_scratch_begin_def activation_begin_def
        input_weights_def activation_state_def feedback_state_def)
  have "feedback_apply direct 81 [1, 2, 3, 1 / 2, 4] 3 4 = (83, [1, 2, 3, 1 / 2, 83])"
    using feedback_direct_and_none [OF ld, of 81 "[]"] od
    by (simp add: Let_def prod_eq_iff)
  moreover have "snd (feed ?n [10, 20] [1, 2]) = [1, 2] \<and>
      feed ?n [10, 20] (snd (feed ?n [10, 20] [1, 2])) = feed ?n [10, 20] [1, 2]"
    using feedback_direct_and_none [OF ln, of 0 "[10, 20]"] by simp
  ultimately show ?thesis by simp
qed

lemma feed_direct_second_call_differs:
  "fst (feed \<lparr>input_size = 1, activation_t = identity, feedback_t = direct, biased = False\<rparr> [1] [1, 1, 0]) = Num 1 \<and>
   fst (feed \<lparr>input_size = 1, activation_t = identity, feedback_t = direct, biased = False\<rparr> [1]
          (snd (feed \<lparr>input_size = 1, activation_t = identity, feedback_t = direct, biased = False\<rparr> [1] [1, 1, 0]))) = Num 2"
  by (simp add: feed_def net_input_def feedback_begin_def feedback_scratch_begin_def
      activation_begin_def input_weights_def activation_state_def feedback_state_def Let_def)

subsection \<open>Rounding\<close>

lemma rne_near:
  assumes "\<bar>m - of_int k\<bar> < 1 / 2"
  shows "rne m = k"
proof (cases "of_int k \<le> m")
  case True
  then have f: "\<lfloor>m\<rfloor> = k" using assms by (intro floor_unique) linarith+
  show ?thesis unfolding rne_def f Let_def using assms True by simp
next
  case False
  then have f: "\<lfloor>m\<rfloor> = k - 1" using assms by (intro floor_unique) (simp, linarith+)
  have "1 / 2 < m - of_int (k - 1)" using assms False by simp
  then show ?thesis unfolding rne_def f Let_def by simp
qed

lemma rne_of_int [simp]: "rne (of_int k) = k"
  by (rule rne_near) simp

lemma rne_nonneg:
  assumes "0 \<le> m"
  shows "0 \<le> rne m"
proof -
  have "0 \<le> \<lfloor>m\<rfloor>" using assms by simp
  then show ?thesis unfolding rne_def Let_def by simp
qed

lemma rne_le:
  assumes "m \<le> of_int k"
  shows "rne m \<le> k"
proof (cases "m = of_int k")
  case True
  then show ?thesis by simp
next
  case False
  then have "m < of_int k" using assms by simp
  then have f: "\<lfloor>m\<rfloor> \<le> k - 1" by linarith
  then show ?thesis unfolding rne_def Let_def by simp
qed

lemma fexponent_eq:
  assumes "2 powi e \<le> \<bar>x\<bar>" and "\<bar>x\<bar> < 2 powi (e + 1)" and "- 126 \<le> e"
  shows "fexponent x = e"
proof -
  have pos: "0 < \<bar>x\<bar>" using assms(1) by (smt (verit) zero_less_power_int)
  have p: "(2::real) powr real_of_int k = 2 powi k" for k
    by (simp add: powr_real_of_int')
  have "2 powr real_of_int e \<le> \<bar>x\<bar> \<and> \<bar>x\<bar> < 2 powr real_of_int (e + 1)"
    unfolding p using assms(1,2) by simp
  then have "\<lfloor>log 2 \<bar>x\<bar>\<rfloor> = e"
    using floor_log_eq_powr_iff [OF pos, of 2 e] by simp
  then show ?thesis using assms(3) by (simp add: fexponent_def)
qed

lemma fl_eq:
  assumes "2 powi e \<le> \<bar>x\<bar>" and "\<bar>x\<bar> < 2 powi (e + 1)" and "- 126 \<le> e"
  shows "fl x = of_int (rne (x / 2 powi (e - 23))) * 2 powi (e - 23)"
proof -
  have "x \<noteq> 0" using assms(1) by (smt (verit) zero_less_power_int)
  then show ?thesis by (simp add: fl_def fexponent_eq [OF assms])
qed

lemma rne_ge:
  assumes "of_int k \<le> m"
  shows "k \<le> rne m"
proof -
  have "k \<le> \<lfloor>m\<rfloor>" using assms by (simp add: le_floor_iff)
  then show ?thesis unfolding rne_def Let_def by simp
qed

lemma fl_exact:
  assumes "2 powi e \<le> \<bar>x\<bar>" and "\<bar>x\<bar> < 2 powi (e + 1)" and "- 126 \<le> e"
    and "x = of_int k * 2 powi (e - 23)"
  shows "fl x = x"
proof -
  have "x / 2 powi (e - 23) = of_int k" using assms(4) by simp
  then show ?thesis using fl_eq [OF assms(1-3)] assms(4) by simp
qed

lemma fl_1: "fl 1 = 1"
  by (rule fl_exact [where e = 0 and k = "2 ^ 23"]) (simp_all add: power_int_minus)

lemma fl_m1: "fl (- 1) = - 1"
  by (rule fl_exact [where e = 0 and k = "- (2 ^ 23)"]) (simp_all add: power_int_minus)

lemma fl_m40: "fl (- 40) = - 40"
  by (rule fl_exact [where e = 5 and k = "- 40 * 2 ^ 18"]) (simp_all add: power_int_minus)

lemma fl_m50: "fl (- 50) = - 50"
  by (rule fl_exact [where e = 5 and k = "- 50 * 2 ^ 18"]) (simp_all add: power_int_minus)

lemma fl_1000: "fl 1000 = 1000"
  by (rule fl_exact [where e = 9 and k = "1000 * 2 ^ 14"]) (simp_all add: power_int_minus)

lemma fl_1_plus:
  assumes "0 \<le> t" and "t < 1 / 2 ^ 24"
  shows "fl (1 + t) = 1"
proof -
  have b: "2 powi 0 \<le> \<bar>1 + t\<bar>" "\<bar>1 + t\<bar> < 2 powi (0 + 1)" using assms by simp_all
  have q: "(2::real) powi (0 - 23) = 1 / 2 ^ 23" by (simp add: power_int_minus field_simps)
  have "\<bar>(1 + t) / (2 powi (0 - 23)) - of_int (2 ^ 23)\<bar> < 1 / 2"
    unfolding q using assms by (simp add: field_simps)
  then have "rne ((1 + t) / (2 powi (0 - 23))) = 2 ^ 23" by (rule rne_near)
  then show ?thesis using fl_eq [OF b] by (simp add: q)
qed

lemma fl_1_minus:
  assumes "0 \<le> t" and "t < 1 / 2 ^ 25"
  shows "fl (1 - t) = 1"
proof (cases "t = 0")
  case True
  then show ?thesis by (simp add: fl_1)
next
  case False
  then have t: "0 < t" using assms by simp
  have q: "(2::real) powi (- 1 - 23) = 1 / 2 ^ 24" "(2::real) powi (- 1) = 1 / 2"
    by (simp_all add: power_int_minus field_simps)
  have b: "2 powi (- 1) \<le> \<bar>1 - t\<bar>" "\<bar>1 - t\<bar> < 2 powi (- 1 + 1)"
    unfolding q using assms t by simp_all
  have "\<bar>(1 - t) / (2 powi (- 1 - 23)) - of_int (2 ^ 24)\<bar> < 1 / 2"
    unfolding q using assms by (simp add: field_simps)
  then have "rne ((1 - t) / (2 powi (- 1 - 23))) = 2 ^ 24" by (rule rne_near)
  then show ?thesis using fl_eq [OF b] by (simp add: q)
qed

lemma fl_small:
  assumes "0 < y" and "y < 2 powi j" and "- 125 \<le> j"
  shows "0 \<le> fl y \<and> fl y \<le> 2 powi j"
proof -
  let ?l = "\<lfloor>log 2 \<bar>y\<bar>\<rfloor>"
  let ?e = "fexponent y"
  let ?q = "(2::real) powi (?e - 23)"
  have p: "(2::real) powr real_of_int k = 2 powi k" for k
    by (simp add: powr_real_of_int')
  have ay: "\<bar>y\<bar> = y" using assms(1) by simp
  have "2 powr real_of_int ?l \<le> \<bar>y\<bar> \<and> \<bar>y\<bar> < 2 powr real_of_int (?l + 1)"
    using floor_log_eq_powr_iff [of "\<bar>y\<bar>" 2 ?l] assms(1) by simp
  then have l: "2 powi ?l \<le> y" "y < 2 powi (?l + 1)" unfolding p ay by simp_all
  have "(2::real) powi ?l < 2 powi j" using l(1) assms(2) by simp
  then have lj: "?l < j"
    using power_int_increasing [of j ?l "2::real"] by (cases "?l < j") simp_all
  have e: "?l \<le> ?e" "?e + 1 \<le> j" using lj assms(3) by (simp_all add: fexponent_def)
  have "(2::real) powi (?l + 1) \<le> 2 powi (?e + 1)"
    using e(1) by (intro power_int_increasing) simp_all
  then have ye: "y < 2 powi (?e + 1)" using l(2) by simp
  have qpos: "0 < ?q" by simp
  have split: "(2::real) powi (?e + 1) = 2 ^ 24 * ?q"
    by (simp add: power_int_diff power_int_add)
  have m: "0 \<le> y / ?q" "y / ?q \<le> of_int (2 ^ 24)"
    using assms(1) ye qpos unfolding split by (simp_all add: field_simps)
  have r: "0 \<le> rne (y / ?q)" "rne (y / ?q) \<le> 2 ^ 24"
    using rne_nonneg [OF m(1)] rne_le [OF m(2)] by simp_all
  have f: "fl y = of_int (rne (y / ?q)) * ?q" using assms(1) by (simp add: fl_def)
  have "of_int (rne (y / ?q)) * ?q \<le> 2 ^ 24 * ?q"
    using r(2) qpos by simp
  also have "\<dots> = 2 powi (?e + 1)" using split by simp
  also have "\<dots> \<le> 2 powi j" using e(2) by (intro power_int_increasing) simp_all
  finally have up: "fl y \<le> 2 powi j" unfolding f .
  have "0 \<le> of_int (rne (y / ?q)) * ?q" using r(1) qpos by simp
  then show ?thesis using up f by simp
qed

lemma exp_ge_two_power: "2 ^ n \<le> exp (real n)"
proof -
  have "(2::real) \<le> exp 1" using exp_ge_add_one_self [of 1] by simp
  then have "(2::real) ^ n \<le> exp 1 ^ n" by (intro power_mono) simp_all
  also have "\<dots> = exp (real n)" using exp_of_nat_mult [of n "1::real"] by simp
  finally show ?thesis .
qed

lemma exp_neg_small:
  assumes "27 \<le> n"
  shows "0 < exp (- real n) \<and> exp (- real n) < 2 powi (- 26)"
proof -
  have "(2::real) ^ 26 < 2 ^ 27" by simp
  also have "\<dots> \<le> 2 ^ n" using assms by (intro power_increasing) simp_all
  also have "\<dots> \<le> exp (real n)" by (rule exp_ge_two_power)
  finally have big: "(2::real) ^ 26 < exp (real n)" .
  have "exp (- real n) = 1 / exp (real n)" by (simp add: exp_minus field_simps)
  also have "\<dots> < 1 / 2 ^ 26" using big by (simp add: frac_less2)
  finally show ?thesis by (simp add: power_int_minus field_simps)
qed

lemma fl_0: "fl 0 = 0"
  by (simp add: fl_def)

lemma fl_2: "fl 2 = 2"
  by (rule fl_exact [where e = 1 and k = "2 ^ 23"]) (simp_all add: power_int_minus)

lemma fl_half: "fl (1 / 2) = 1 / 2"
  by (rule fl_exact [where e = "- 1" and k = "2 ^ 23"]) (simp_all add: power_int_minus)

lemma fround_small:
  assumes "\<bar>x\<bar> < 2 ^ 127"
  shows "fround x = Num (fl x)"
proof -
  have "(2::real) ^ 127 < 2 ^ 128 - 2 ^ 103" by simp
  then show ?thesis using assms unfolding fround_def by (simp add: abs_less_iff)
qed

lemma fl_bracket:
  assumes "2 powi e \<le> \<bar>x\<bar>" and "\<bar>x\<bar> < 2 powi (e + 1)" and "- 126 \<le> e"
  shows "2 powi e \<le> \<bar>fl x\<bar> \<and> \<bar>fl x\<bar> \<le> 2 powi (e + 1)"
proof -
  let ?q = "(2::real) powi (e - 23)"
  have qpos: "0 < ?q" by simp
  have lo: "(2::real) powi e = 2 ^ 23 * ?q" by (simp add: power_int_diff)
  have hi: "(2::real) powi (e + 1) = 2 ^ 24 * ?q" by (simp add: power_int_diff power_int_add)
  have f: "fl x = of_int (rne (x / ?q)) * ?q" by (rule fl_eq [OF assms])
  show ?thesis
  proof (cases "0 \<le> x")
    case True
    then have m: "of_int (2 ^ 23) \<le> x / ?q" "x / ?q \<le> of_int (2 ^ 24)"
      using assms(1,2) qpos unfolding lo hi by (simp_all add: field_simps)
    have "2 ^ 23 \<le> rne (x / ?q)" "rne (x / ?q) \<le> 2 ^ 24"
      using rne_ge [OF m(1)] rne_le [OF m(2)] by simp_all
    then have "2 ^ 23 \<le> (of_int (rne (x / ?q)) :: real)" "(of_int (rne (x / ?q)) :: real) \<le> 2 ^ 24"
      by (metis of_int_le_iff of_int_numeral of_int_power)+
    then have "2 ^ 23 * ?q \<le> fl x" "fl x \<le> 2 ^ 24 * ?q"
      unfolding f using qpos by simp_all
    then show ?thesis unfolding lo hi using qpos by (simp add: abs_if)
  next
    case False
    then have m: "of_int (- (2 ^ 24)) \<le> x / ?q" "x / ?q \<le> of_int (- (2 ^ 23))"
      using assms(1,2) qpos unfolding lo hi by (simp_all add: field_simps)
    have "- (2 ^ 24) \<le> rne (x / ?q)" "rne (x / ?q) \<le> - (2 ^ 23)"
      using rne_ge [OF m(1)] rne_le [OF m(2)] by simp_all
    then have "- (2 ^ 24) \<le> (of_int (rne (x / ?q)) :: real)" "(of_int (rne (x / ?q)) :: real) \<le> - (2 ^ 23)"
      by (metis of_int_le_iff of_int_numeral of_int_power of_int_minus)+
    then have "(- (2 ^ 24)) * ?q \<le> of_int (rne (x / ?q)) * ?q"
      "of_int (rne (x / ?q)) * ?q \<le> (- (2 ^ 23)) * ?q"
      using qpos by (intro mult_right_mono; simp)+
    then have "- (2 ^ 24 * ?q) \<le> fl x" "fl x \<le> - (2 ^ 23 * ?q)"
      unfolding f by simp_all
    then show ?thesis unfolding lo hi using qpos by (simp add: abs_if)
  qed
qed

lemma fl_int_bounds:
  assumes "k \<noteq> 0" and "\<bar>k\<bar> < 2 ^ 31"
  shows "1 \<le> \<bar>fl (of_int k)\<bar> \<and> \<bar>fl (of_int k)\<bar> \<le> 2 ^ 31"
proof -
  let ?x = "real_of_int k"
  let ?l = "\<lfloor>log 2 \<bar>?x\<bar>\<rfloor>"
  have p: "(2::real) powr real_of_int j = 2 powi j" for j
    by (simp add: powr_real_of_int')
  have x1: "1 \<le> \<bar>?x\<bar>" using assms(1) by (simp flip: of_int_abs)
  have x2: "\<bar>?x\<bar> < 2 ^ 31" using assms(2) by (simp flip: of_int_abs)
  have "2 powr real_of_int ?l \<le> \<bar>?x\<bar> \<and> \<bar>?x\<bar> < 2 powr real_of_int (?l + 1)"
    using floor_log_eq_powr_iff [of "\<bar>?x\<bar>" 2 ?l] x1 by simp
  then have l: "2 powi ?l \<le> \<bar>?x\<bar>" "\<bar>?x\<bar> < 2 powi (?l + 1)" unfolding p by simp_all
  have "(2::real) powi 0 < 2 powi (?l + 1)" using x1 l(2) by simp
  then have l0: "0 \<le> ?l"
    using power_int_increasing [of "?l + 1" 0 "2::real"] by (cases "0 \<le> ?l") simp_all
  have "(2::real) powi ?l < 2 powi 31" using x2 l(1) by simp
  then have l31: "?l + 1 \<le> 31"
    using power_int_increasing [of 31 ?l "2::real"] by (cases "?l + 1 \<le> 31") simp_all
  have b: "2 powi ?l \<le> \<bar>fl ?x\<bar> \<and> \<bar>fl ?x\<bar> \<le> 2 powi (?l + 1)"
    using l l0 by (intro fl_bracket) simp_all
  have "(1::real) = 2 powi 0" by simp
  also have "\<dots> \<le> 2 powi ?l" using l0 by (intro power_int_increasing) simp_all
  finally have lo: "1 \<le> \<bar>fl ?x\<bar>" using b by simp
  have "(2::real) powi (?l + 1) \<le> 2 powi 31" using l31 by (intro power_int_increasing) simp_all
  then have hi: "\<bar>fl ?x\<bar> \<le> 2 ^ 31" using b by simp
  show ?thesis using lo hi by simp
qed

subsection \<open>Fixed-slope sigmoid\<close>

lemma slope_one: "fdiv (fround (- 1)) (fround 1) = Num (- 1)"
  by (simp add: fround_small fl_1 fl_m1)

lemma exp_1000_overflows: "fround (exp 1000) = PInf"
proof -
  have "(2::real) ^ 128 - 2 ^ 103 \<le> 2 ^ 1000" by simp
  also have "\<dots> \<le> exp (real 1000)" by (rule exp_ge_two_power)
  finally show ?thesis by (simp add: fround_def)
qed

lemma fexp_saturates:
  assumes "27 \<le> n"
  shows "\<exists>t. fexp (Num (- real n)) = Num t \<and> 0 \<le> t \<and> t < 1 / 2 ^ 25"
proof -
  note e = exp_neg_small [OF assms]
  have b: "0 \<le> fl (exp (- real n)) \<and> fl (exp (- real n)) \<le> 2 powi (- 26)"
    using e by (intro fl_small) simp_all
  have "\<bar>exp (- real n)\<bar> < 2 ^ 127"
    using e by (simp add: power_int_minus field_simps)
  then have "fexp (Num (- real n)) = Num (fl (exp (- real n)))" by (simp add: fround_small)
  moreover have "(2::real) powi (- 26) < 1 / 2 ^ 25" by (simp add: power_int_minus field_simps)
  ultimately show ?thesis using b by auto
qed

lemma sig_saturated:
  assumes "0 \<le> t" and "t < 1 / 2 ^ 25"
  shows "fdiv (fsub (Num 1) (Num t)) (fadd (Num 1) (Num t)) = Num 1 \<and>
         fdiv (Num 1) (fadd (Num 1) (Num t)) = Num 1"
proof -
  have t24: "t < 1 / 2 ^ 24" using assms(2) by (simp add: field_simps)
  have s1: "\<bar>1 + t\<bar> < 2 ^ 127" "\<bar>1 + - t\<bar> < 2 ^ 127" using assms by simp_all
  have p: "fadd (Num 1) (Num t) = Num 1"
    using fl_1_plus [OF assms(1) t24] s1 by (simp add: fround_small)
  have m: "fsub (Num 1) (Num t) = Num 1"
    using fl_1_minus [OF assms] s1 by (simp add: fsub_def fround_small)
  show ?thesis unfolding p m by (simp add: fround_small fl_1)
qed

lemma slope_finite:
  assumes "d \<noteq> 0" and "\<bar>n\<bar> < 2 ^ 31" and "\<bar>d\<bar> < 2 ^ 31"
  shows "\<exists>r. fdiv (fround (of_int (- n))) (fround (of_int d)) = Num r"
proof -
  let ?a = "fl (of_int (- n))" and ?b = "fl (of_int d)"
  have small: "\<bar>real_of_int k\<bar> < 2 ^ 127" if "\<bar>k\<bar> < 2 ^ 31" for k
  proof -
    have "\<bar>real_of_int k\<bar> < 2 ^ 31"
      using that by (simp flip: of_int_abs)
    then show ?thesis by simp
  qed
  have fa: "fround (of_int (- n)) = Num ?a" using small [of "- n"] assms(2) by (simp add: fround_small)
  have fb: "fround (of_int d) = Num ?b" using small [of d] assms(3) by (simp add: fround_small)
  have b1: "1 \<le> \<bar>?b\<bar>" using fl_int_bounds [OF assms(1,3)] by simp
  have a31: "\<bar>?a\<bar> \<le> 2 ^ 31"
  proof (cases "n = 0")
    case True
    then show ?thesis by (simp add: fl_0)
  next
    case False
    then show ?thesis using fl_int_bounds [of "- n"] assms(2) by simp
  qed
  have "\<bar>?a\<bar> / \<bar>?b\<bar> \<le> \<bar>?a\<bar> / 1"
    using b1 by (intro divide_left_mono) simp_all
  then have "\<bar>?a / ?b\<bar> \<le> \<bar>?a\<bar>" by (simp add: abs_divide)
  then have "\<bar>?a / ?b\<bar> < 2 ^ 127" using a31 by simp
  then have "fround (?a / ?b) = Num (fl (?a / ?b))" by (rule fround_small)
  moreover have "?b \<noteq> 0" using b1 by auto
  ultimately show ?thesis unfolding fa fb by simp
qed

lemma sig_midpoint:
  assumes "d \<noteq> 0" and "\<bar>n\<bar> < 2 ^ 31" and "\<bar>d\<bar> < 2 ^ 31"
  shows "activation_apply (sig_bipolar n d) 0 st ofs = Num 0 \<and>
         activation_apply (sig_unipolar n d) 0 st ofs = Num (1 / 2)"
proof -
  obtain r where r: "fdiv (fround (of_int (- n))) (fround (of_int d)) = Num r"
    using slope_finite [OF assms] by auto
  have z: "fmul (Num r) (Num 0) = Num 0" by (simp add: fround_small fl_0)
  have e0: "fexp (Num 0) = Num 1" by (simp add: fround_small fl_1)
  have s0: "fsub (Num 1) (Num 1) = Num 0" by (simp add: fsub_def fround_small fl_0)
  have a2: "fadd (Num 1) (Num 1) = Num 2" by (simp add: fround_small fl_2)
  have d0: "fdiv (Num 0) (Num 2) = Num 0" by (simp add: fround_small fl_0)
  have dh: "fdiv (Num 1) (Num 2) = Num (1 / 2)" by (simp add: fround_small fl_half)
  show ?thesis
    unfolding activation_apply.simps Let_def r z e0 s0 a2 d0 dh by simp
qed

text \<open>
  C9. The claim says that the fixed-slope sigmoid returns the midpoint of its range at
  \<open>u = 0\<close> and, for a positive slope, increases monotonically over all inputs. With
  the slope 1/1 in \<open>float\<close>: at \<open>u = -1000\<close> the exponential overflows to
  infinity, the bipolar variant returns NaN, the value of \<open>(1 - inf) / (1 + inf)\<close>,
  which is outside its declared range from -1 to 1 and not below any other output, and
  the unipolar variant returns 0; at \<open>u = 40\<close> and at \<open>u = 50\<close> both variants
  return 1, so the increase is not strict; at \<open>u = 0\<close> they return the midpoints 0
  and 1/2.
\<close>

theorem sig_bipolar_overflow:
  "activation_apply (sig_bipolar 1 1) (- 1000) [] 0 = NaN \<and>
   activation_apply (sig_unipolar 1 1) (- 1000) [] 0 = Num 0 \<and>
   activation_apply (sig_bipolar 1 1) 40 [] 0 = Num 1 \<and>
   activation_apply (sig_bipolar 1 1) 50 [] 0 = Num 1 \<and>
   activation_apply (sig_unipolar 1 1) 40 [] 0 = Num 1 \<and>
   activation_apply (sig_unipolar 1 1) 50 [] 0 = Num 1 \<and>
   activation_apply (sig_bipolar 1 1) 0 [] 0 = Num 0 \<and>
   activation_apply (sig_unipolar 1 1) 0 [] 0 = Num (1 / 2)"
proof -
  have big: "fexp (fmul (Num (- 1)) (Num (- 1000))) = PInf"
    by (simp add: fround_small fl_1000 exp_1000_overflows)
  have neg: "activation_apply (sig_bipolar 1 1) (- 1000) [] 0 = NaN \<and>
      activation_apply (sig_unipolar 1 1) (- 1000) [] 0 = Num 0"
    by (simp add: slope_one big fsub_def Let_def del: fexp.simps fmul.simps)
  obtain t40 where t40: "fexp (Num (- 40)) = Num t40" "0 \<le> t40" "t40 < 1 / 2 ^ 25"
    using fexp_saturates [of 40] by auto
  obtain t50 where t50: "fexp (Num (- 50)) = Num t50" "0 \<le> t50" "t50 < 1 / 2 ^ 25"
    using fexp_saturates [of 50] by auto
  have m40: "fmul (Num (- 1)) (Num 40) = Num (- 40)"
    by (simp add: fround_small fl_m40)
  have m50: "fmul (Num (- 1)) (Num 50) = Num (- 50)"
    by (simp add: fround_small fl_m50)
  have sat: "activation_apply (sig_bipolar 1 1) 40 [] 0 = Num 1 \<and>
      activation_apply (sig_bipolar 1 1) 50 [] 0 = Num 1 \<and>
      activation_apply (sig_unipolar 1 1) 40 [] 0 = Num 1 \<and>
      activation_apply (sig_unipolar 1 1) 50 [] 0 = Num 1"
    using sig_saturated [OF t40(2,3)] sig_saturated [OF t50(2,3)]
    by (simp add: slope_one m40 m50 t40(1) t50(1) Let_def del: fexp.simps fmul.simps fadd.simps fdiv.simps)
  have z: "fmul (Num (- 1)) (Num 0) = Num 0" by (simp add: fround_small fl_0)
  have e0: "fexp (Num 0) = Num 1" by (simp add: fround_small fl_1)
  have s0: "fsub (Num 1) (Num 1) = Num 0" by (simp add: fsub_def fround_small fl_0)
  have a2: "fadd (Num 1) (Num 1) = Num 2" by (simp add: fround_small fl_2)
  have d0: "fdiv (Num 0) (Num 2) = Num 0" by (simp add: fround_small fl_0)
  have dh: "fdiv (Num 1) (Num 2) = Num (1 / 2)" by (simp add: fround_small fl_half)
  have mid: "activation_apply (sig_bipolar 1 1) 0 [] 0 = Num 0 \<and>
      activation_apply (sig_unipolar 1 1) 0 [] 0 = Num (1 / 2)"
    by (simp add: slope_one z e0 s0 a2 d0 dh Let_def
        del: fexp.simps fmul.simps fadd.simps fdiv.simps)
  show ?thesis using neg sat mid by simp
qed

section \<open>Properties of the simulation driver\<close>

subsection \<open>Loops over the cells\<close>

lemma foldl_pointwise:
  assumes step: "\<And>xs i. step xs i = xs[i := f i (xs ! i)]"
  shows "n \<le> length xs \<Longrightarrow>
         length (foldl step xs [0..<n]) = length xs \<and>
         (\<forall>j<length xs. foldl step xs [0..<n] ! j = (if j < n then f j (xs ! j) else xs ! j))"
proof (induction n)
  case 0
  show ?case by simp
next
  case (Suc n)
  then have ih: "length (foldl step xs [0..<n]) = length xs"
    "\<And>j. j < length xs \<Longrightarrow> foldl step xs [0..<n] ! j = (if j < n then f j (xs ! j) else xs ! j)"
    by simp_all
  have unfold: "foldl step xs [0..<Suc n] = (foldl step xs [0..<n])[n := f n (foldl step xs [0..<n] ! n)]"
    by (simp add: step)
  have n: "n < length xs" using Suc.prems by simp
  show ?case
    unfolding unfold using ih n by (auto simp: nth_list_update)
qed

lemma init_items_nth:
  assumes "DD \<le> length items_l"
  shows "length (init_items P DD capacity_l items_l) = length items_l \<and>
         (\<forall>j<length items_l. init_items P DD capacity_l items_l ! j =
            (if j < DD then real_of_int \<lfloor>capacity_l ! j * max_item_cap P\<rfloor> else items_l ! j))"
  unfolding init_items_def
  by (rule foldl_pointwise [where f = "\<lambda>i v. real_of_int \<lfloor>capacity_l ! i * max_item_cap P\<rfloor>"])
     (simp_all add: assms)

lemma grow_items_nth:
  assumes "DD \<le> length items_l"
  shows "length (grow_items P R DD capacity_l items_l) = length items_l \<and>
         (\<forall>j<length items_l. grow_items P R DD capacity_l items_l ! j =
            (if j < DD
             then (if grow R j
                   then min (real_of_int \<lfloor>capacity_l ! j * max_item_cap P\<rfloor>) (real_of_int \<lfloor>items_l ! j + 1\<rfloor>)
                   else items_l ! j)
             else items_l ! j))"
  unfolding grow_items_def
  by (rule foldl_pointwise [where f = "\<lambda>i v. if grow R i
         then min (real_of_int \<lfloor>capacity_l ! i * max_item_cap P\<rfloor>) (real_of_int \<lfloor>v + 1\<rfloor>) else v"])
     (simp_all add: assms)

lemma grow_cell_bounds:
  fixes v :: real and F :: int
  assumes "0 \<le> v" and "v \<le> real_of_int F"
  shows "v \<le> min (real_of_int F) (real_of_int \<lfloor>v + 1\<rfloor>) \<and>
         min (real_of_int F) (real_of_int \<lfloor>v + 1\<rfloor>) \<le> v + 1 \<and>
         0 \<le> min (real_of_int F) (real_of_int \<lfloor>v + 1\<rfloor>) \<and>
         min (real_of_int F) (real_of_int \<lfloor>v + 1\<rfloor>) \<le> real_of_int F"
proof -
  define w where "w = real_of_int \<lfloor>v + 1\<rfloor>"
  have w1: "v < w" and w2: "w \<le> v + 1" unfolding w_def by linarith+
  have "v \<le> min (real_of_int F) w \<and> min (real_of_int F) w \<le> v + 1 \<and>
        0 \<le> min (real_of_int F) w \<and> min (real_of_int F) w \<le> real_of_int F"
    using assms w1 w2 by (auto simp: min_def)
  then show ?thesis unfolding w_def .
qed

lemma grow_items_bounds:
  assumes len: "length items_l = DD"
    and inv: "\<forall>i<DD. 0 \<le> items_l ! i \<and> items_l ! i \<le> real_of_int \<lfloor>capacity_l ! i * max_item_cap P\<rfloor>"
    and i: "i < DD"
  shows "items_l ! i \<le> grow_items P R DD capacity_l items_l ! i \<and>
         grow_items P R DD capacity_l items_l ! i \<le> items_l ! i + 1 \<and>
         (\<not> grow R i \<longrightarrow> grow_items P R DD capacity_l items_l ! i = items_l ! i) \<and>
         0 \<le> grow_items P R DD capacity_l items_l ! i \<and>
         grow_items P R DD capacity_l items_l ! i \<le> real_of_int \<lfloor>capacity_l ! i * max_item_cap P\<rfloor>"
proof -
  have nth: "grow_items P R DD capacity_l items_l ! i =
      (if grow R i
       then min (real_of_int \<lfloor>capacity_l ! i * max_item_cap P\<rfloor>) (real_of_int \<lfloor>items_l ! i + 1\<rfloor>)
       else items_l ! i)"
    using grow_items_nth [of DD items_l P R capacity_l] len i by simp
  have b: "0 \<le> items_l ! i" "items_l ! i \<le> real_of_int \<lfloor>capacity_l ! i * max_item_cap P\<rfloor>"
    using inv i by simp_all
  show ?thesis
  proof (cases "grow R i")
    case True
    then show ?thesis unfolding nth using grow_cell_bounds [OF b] by simp
  next
    case False
    then show ?thesis unfolding nth using b by simp
  qed
qed

lemma uniform_int_distribution_range:
  assumes "a \<le> b"
  shows "a \<le> uniform_int_distribution a b r \<and> uniform_int_distribution a b r \<le> b"
proof -
  have m: "0 < b - a + 1" using assms by simp
  have "0 \<le> r mod (b - a + 1)" using m by (rule pos_mod_sign)
  moreover have "r mod (b - a + 1) < b - a + 1" using m by (rule pos_mod_bound)
  ultimately show ?thesis unfolding uniform_int_distribution_def by linarith
qed

lemma update_occupancy_frame:
  "dim (update_occupancy E L agents_pop) = dim L \<and>
   layer (update_occupancy E L agents_pop) items = layer L items \<and>
   layer (update_occupancy E L agents_pop) capacity = layer L capacity"
  by (simp add: update_occupancy_def)

subsection \<open>Initial item cover\<close>

lemma Simulation_init_landscape:
  assumes "Simulation_init E P R L0 A0 arch = Inr S"
  shows "32 \<le> dim L0 \<and>
         landscape S = update_occupancy E
           (L0\<lparr>layer := (layer L0)(items := init_items P (dim L0 * dim L0) (layer L0 capacity) (layer L0 items))\<rparr>)
           (pop (agents S))"
proof (cases "dim L0 < 32")
  case True
  then show ?thesis using assms by (simp add: Simulation_init_def)
next
  case False
  show ?thesis
  proof (cases arch)
    case None
    with False assms show ?thesis by (auto simp: Simulation_init_def Let_def)
  next
    case (Some cm)
    with False assms show ?thesis
      by (auto simp: Simulation_init_def init_anns_from_archive_def Let_def
          split: sum.splits if_splits)
  qed
qed

text \<open>
  C10. When the constructor returns a simulation (the landscape has at least 32 cells per
  side, and an archive, if given, matches), the capacity layer is the one read from the
  image and every cell's item count is \<open>floor(capacity * max_item_cap)\<close> of that cell;
  where \<open>capacity * max_item_cap\<close> is not negative, the count lies within the bounds
  from 0 to that value.
\<close>

theorem initial_items_full_cover:
  assumes init: "Simulation_init E P R L0 A0 arch = Inr S"
    and len: "length (layer L0 capacity) = dim L0 * dim L0" "length (layer L0 items) = dim L0 * dim L0"
  shows "32 \<le> dim (landscape S) \<and> dim (landscape S) = dim L0 \<and>
         layer (landscape S) capacity = layer L0 capacity \<and>
         length (layer (landscape S) items) = dim L0 * dim L0 \<and>
         (\<forall>i<dim L0 * dim L0.
            layer (landscape S) items ! i =
              real_of_int \<lfloor>layer (landscape S) capacity ! i * max_item_cap P\<rfloor> \<and>
            (0 \<le> layer L0 capacity ! i * max_item_cap P \<longrightarrow>
               0 \<le> layer (landscape S) items ! i \<and>
               layer (landscape S) items ! i \<le> real_of_int \<lfloor>layer (landscape S) capacity ! i * max_item_cap P\<rfloor>))"
proof -
  let ?DD = "dim L0 * dim L0"
  let ?its = "init_items P ?DD (layer L0 capacity) (layer L0 items)"
  note ls = Simulation_init_landscape [OF init]
  have d: "32 \<le> dim L0" using ls by simp
  have frame: "dim (landscape S) = dim L0" "layer (landscape S) capacity = layer L0 capacity"
    "layer (landscape S) items = ?its"
    using ls by (simp_all add: update_occupancy_frame)
  have nth: "length ?its = ?DD"
    "\<And>i. i < ?DD \<Longrightarrow> ?its ! i = real_of_int \<lfloor>layer L0 capacity ! i * max_item_cap P\<rfloor>"
    using init_items_nth [of ?DD "layer L0 items" P "layer L0 capacity"] len by simp_all
  show ?thesis using d frame nth by simp
qed

theorem initial_items_full_cover_witness:
  "\<exists>S. Simulation_init example_externals
          \<lparr>max_item_cap = 5, item_growth = 1 / 2, detection_rate = 1 / 5, flee_radius = 2, sprout_radius = 2\<rparr>
          \<lparr>grow = (\<lambda>i. True), detect = (\<lambda>i. True), rind = (\<lambda>k. 0), shuffle = (\<lambda>c. c),
           coorDist = (\<lambda>i. (0, 0)), initPos = (\<lambda>i. (int i, 7)), rdist = (\<lambda>i. 0)\<rparr>
          \<lparr>dim = 32, layer = (\<lambda>l. if l = capacity then replicate 1024 (1 / 2) else replicate 1024 0)\<rparr>
          \<lparr>pop = replicate 2 \<lparr>pos = (0, 0), foraging = True, handling = False, handle_time = 0\<rparr>,
           tmp_pop = replicate 2 \<lparr>pos = (0, 0), foraging = True, handling = False, handle_time = 0\<rparr>,
           ann = [[0], [0]], tmp_ann = [[0], [0]], fitness = [0, 0]\<rparr>
          None = Inr S \<and>
        layer (landscape S) items ! 5 = 2 \<and> length (layer (landscape S) items) = 1024"
proof -
  let ?P = "\<lparr>max_item_cap = 5, item_growth = 1 / 2, detection_rate = 1 / 5, flee_radius = 2, sprout_radius = 2\<rparr>"
  let ?R = "\<lparr>grow = (\<lambda>i. True), detect = (\<lambda>i. True), rind = (\<lambda>k. 0), shuffle = (\<lambda>c. c),
           coorDist = (\<lambda>i. (0, 0)), initPos = (\<lambda>i. (int i, 7)), rdist = (\<lambda>i. 0)\<rparr>"
  let ?L = "\<lparr>dim = 32, layer = (\<lambda>l. if l = capacity then replicate 1024 (1 / 2) else replicate 1024 0)\<rparr>"
  let ?A = "\<lparr>pop = replicate 2 \<lparr>pos = (0, 0), foraging = True, handling = False, handle_time = 0\<rparr>,
           tmp_pop = replicate 2 \<lparr>pos = (0, 0), foraging = True, handling = False, handle_time = 0\<rparr>,
           ann = [[0], [0]], tmp_ann = [[0], [0]], fitness = [0, 0]\<rparr>"
  obtain S where S: "Simulation_init example_externals ?P ?R ?L ?A None = Inr S"
    by (simp add: Simulation_init_def Let_def)
  have l1: "length (layer ?L capacity) = dim ?L * dim ?L" by simp
  have l2: "length (layer ?L items) = dim ?L * dim ?L" by simp
  have f: "\<lfloor>5 / 2 :: real\<rfloor> = 2" by linarith
  have i: "5 < dim ?L * dim ?L" by simp
  have c: "layer ?L capacity ! 5 * max_item_cap ?P = 5 / 2" by simp
  note t = initial_items_full_cover [OF S l1 l2]
  from t have "layer (landscape S) capacity = layer ?L capacity" by blast
  moreover from t i have "layer (landscape S) items ! 5 =
      real_of_int \<lfloor>layer (landscape S) capacity ! 5 * max_item_cap ?P\<rfloor>" by blast
  ultimately have "layer (landscape S) items ! 5 = 2" using c f by simp
  moreover from t have "length (layer (landscape S) items) = 1024" by simp
  ultimately show ?thesis using S by blast
qed

subsection \<open>Item counts\<close>

lemma graze_items:
  "length (snd (graze E R d i as its)) = length its \<and>
   (\<forall>c<length its. (0 \<le> its ! c \<longrightarrow> 0 \<le> snd (graze E R d i as its) ! c) \<and>
                    snd (graze E R d i as its) ! c \<le> its ! c)"
proof (induction as arbitrary: i its)
  case Nil
  show ?case by simp
next
  case (Cons a as)
  let ?k = "cell E d (pos a)"
  show ?case
  proof (cases "\<not> handle E a \<and> foraging a \<and> its ! ?k \<ge> 1 \<and> detect R i")
    case False
    then have "snd (graze E R d i (a # as) its) = snd (graze E R d (Suc i) as its)"
      by (auto simp: Let_def)
    then show ?thesis using Cons.IH [of "Suc i" its] by simp
  next
    case True
    let ?its = "its[?k := its ! ?k - 1]"
    from True have eq: "snd (graze E R d i (a # as) its) = snd (graze E R d (Suc i) as ?its)"
      by (simp add: Let_def)
    have ih: "length (snd (graze E R d (Suc i) as ?its)) = length ?its"
      "\<And>c. c < length ?its \<Longrightarrow> (0 \<le> ?its ! c \<longrightarrow> 0 \<le> snd (graze E R d (Suc i) as ?its) ! c) \<and>
          snd (graze E R d (Suc i) as ?its) ! c \<le> ?its ! c"
      using Cons.IH [of "Suc i" ?its] by simp_all
    have step: "(0 \<le> its ! c \<longrightarrow> 0 \<le> ?its ! c) \<and> ?its ! c \<le> its ! c" if "c < length its" for c
      using True that by (cases "c = ?k") simp_all
    show ?thesis
      unfolding eq using ih step by (auto intro: order_trans)
  qed
qed

lemma graze_one_agent:
  "snd (graze E R d i [a] its) = its \<or>
   (1 \<le> its ! cell E d (pos a) \<and>
    snd (graze E R d i [a] its) = its[cell E d (pos a) := its ! cell E d (pos a) - 1])"
  by (simp add: Let_def)

lemma graze_agents_length:
  "length (fst (graze E R d i as its)) = length as"
  by (induction as arbitrary: i its) (simp_all add: Let_def)

text \<open>
  C5. Let every cell hold a count between 0 and \<open>floor(capacity * max_item_cap)\<close>, the
  layers have \<open>DD\<close> cells and the agents stand on the grid. After the growth loop every
  count is at least what it was and at most one more, unchanged where the draw failed,
  and within the bounds. After the foraging loop on the grown layer every count is
  between 0 and the grown count, so within the bounds. One agent's foraging step leaves
  the layer as it is or decrements the count of its cell by one, the latter only when
  that count is at least 1.
\<close>

theorem item_count_within_bounds:
  assumes len: "length items_l = DD" "length capacity_l = DD"
    and inv: "\<forall>i<DD. 0 \<le> items_l ! i \<and> items_l ! i \<le> real_of_int \<lfloor>capacity_l ! i * max_item_cap P\<rfloor>"
    and grid: "\<forall>a\<in>set agents_pop. cell E d (pos a) < DD"
  shows "(let grown = grow_items P R DD capacity_l items_l;
              grazed = snd (graze E R d 0 agents_pop grown)
          in length grown = DD \<and> length grazed = DD \<and>
             (\<forall>i<DD. items_l ! i \<le> grown ! i \<and> grown ! i \<le> items_l ! i + 1 \<and>
                      (\<not> grow R i \<longrightarrow> grown ! i = items_l ! i) \<and>
                      0 \<le> grown ! i \<and> grown ! i \<le> real_of_int \<lfloor>capacity_l ! i * max_item_cap P\<rfloor> \<and>
                      0 \<le> grazed ! i \<and> grazed ! i \<le> grown ! i \<and>
                      grazed ! i \<le> real_of_int \<lfloor>capacity_l ! i * max_item_cap P\<rfloor>)) \<and>
         (\<forall>a its i. snd (graze E R d i [a] its) = its \<or>
                     (1 \<le> its ! cell E d (pos a) \<and>
                      snd (graze E R d i [a] its) = its[cell E d (pos a) := its ! cell E d (pos a) - 1]))"
proof -
  let ?grown = "grow_items P R DD capacity_l items_l"
  let ?grazed = "snd (graze E R d 0 agents_pop ?grown)"
  have lg: "length ?grown = DD"
    using grow_items_nth [of DD items_l P R capacity_l] len by simp
  have lz: "length ?grazed = DD"
    using graze_items [of E R d 0 agents_pop ?grown] lg by simp
  have cells: "items_l ! i \<le> ?grown ! i \<and> ?grown ! i \<le> items_l ! i + 1 \<and>
        (\<not> grow R i \<longrightarrow> ?grown ! i = items_l ! i) \<and>
        0 \<le> ?grown ! i \<and> ?grown ! i \<le> real_of_int \<lfloor>capacity_l ! i * max_item_cap P\<rfloor> \<and>
        0 \<le> ?grazed ! i \<and> ?grazed ! i \<le> ?grown ! i \<and>
        ?grazed ! i \<le> real_of_int \<lfloor>capacity_l ! i * max_item_cap P\<rfloor>" if i: "i < DD" for i
  proof -
    note g = grow_items_bounds [OF len(1) inv i, of R]
    have z: "(0 \<le> ?grown ! i \<longrightarrow> 0 \<le> ?grazed ! i) \<and> ?grazed ! i \<le> ?grown ! i"
      using graze_items [of E R d 0 agents_pop ?grown] lg i by simp
    show ?thesis using g z by linarith
  qed
  show ?thesis
    unfolding Let_def using lg lz cells graze_one_agent by blast
qed

theorem item_count_within_bounds_witness:
  "grow_items \<lparr>max_item_cap = 5, item_growth = 1 / 2, detection_rate = 1 / 5, flee_radius = 2, sprout_radius = 2\<rparr>
      \<lparr>grow = (\<lambda>i. True), detect = (\<lambda>i. True), rind = (\<lambda>k. 0), shuffle = (\<lambda>c. c),
       coorDist = (\<lambda>i. (0, 0)), initPos = (\<lambda>i. (0, 0)), rdist = (\<lambda>i. 0)\<rparr>
      2 [1 / 2, 1] [0, 5] ! 0 \<le> [0, 5] ! 0 + 1 \<and>
   0 \<le> snd (graze example_externals
      \<lparr>grow = (\<lambda>i. True), detect = (\<lambda>i. True), rind = (\<lambda>k. 0), shuffle = (\<lambda>c. c),
       coorDist = (\<lambda>i. (0, 0)), initPos = (\<lambda>i. (0, 0)), rdist = (\<lambda>i. 0)\<rparr>
      2 0 [\<lparr>pos = (0, 0), foraging = True, handling = False, handle_time = 0\<rparr>]
      (grow_items \<lparr>max_item_cap = 5, item_growth = 1 / 2, detection_rate = 1 / 5, flee_radius = 2, sprout_radius = 2\<rparr>
        \<lparr>grow = (\<lambda>i. True), detect = (\<lambda>i. True), rind = (\<lambda>k. 0), shuffle = (\<lambda>c. c),
         coorDist = (\<lambda>i. (0, 0)), initPos = (\<lambda>i. (0, 0)), rdist = (\<lambda>i. 0)\<rparr>
        2 [1 / 2, 1] [0, 5])) ! 1"
proof -
  let ?P = "\<lparr>max_item_cap = 5, item_growth = 1 / 2, detection_rate = 1 / 5, flee_radius = 2, sprout_radius = 2\<rparr>"
  let ?R = "\<lparr>grow = (\<lambda>i. True), detect = (\<lambda>i. True), rind = (\<lambda>k. 0), shuffle = (\<lambda>c. c),
       coorDist = (\<lambda>i. (0, 0)), initPos = (\<lambda>i. (0, 0)), rdist = (\<lambda>i. 0)\<rparr>"
  let ?pop = "[\<lparr>pos = (0, 0), foraging = True, handling = False, handle_time = 0\<rparr>]"
  have l1: "length [0, 5 :: real] = 2" and l2: "length [1 / 2, 1 :: real] = 2" by simp_all
  have f1: "\<lfloor>5 / 2 :: real\<rfloor> = 2" by linarith
  have inv: "\<forall>i<2. 0 \<le> [0, 5 :: real] ! i \<and>
      [0, 5] ! i \<le> real_of_int \<lfloor>[1 / 2, 1] ! i * max_item_cap ?P\<rfloor>"
    using f1 by (simp add: less_Suc_eq numeral_2_eq_2)
  have grid: "\<forall>a\<in>set ?pop. cell example_externals 2 (pos a) < 2"
    by (simp add: example_externals_def example_cell_def)
  have i0: "0 < (2::nat)" and i1: "1 < (2::nat)" by simp_all
  show ?thesis
    using item_count_within_bounds [OF l1 l2 inv grid, of ?R, unfolded Let_def] i0 i1 by blast
qed

text \<open>The same bounds over a whole timestep that returns.\<close>

lemma resolve_landscape:
  assumes "resolve_grazing_and_attacks E P R S = Inr S'"
  shows "dim (landscape S') = dim (landscape S) \<and>
         layer (landscape S') capacity = layer (landscape S) capacity \<and>
         layer (landscape S') items =
           snd (graze E R (dim (landscape S)) 0 (pop (agents S)) (layer (landscape S) items))"
  using assms
  by (auto simp: resolve_grazing_and_attacks_def Let_def split: sum.splits)

lemma simulate_timestep_item_bounds:
  assumes step: "simulate_timestep E P R S = Inr S'"
    and len: "length (layer (landscape S) items) = dim (landscape S) * dim (landscape S)"
    and inv: "\<forall>i<dim (landscape S) * dim (landscape S).
        0 \<le> layer (landscape S) items ! i \<and>
        layer (landscape S) items ! i \<le> real_of_int \<lfloor>layer (landscape S) capacity ! i * max_item_cap P\<rfloor>"
  shows "dim (landscape S') = dim (landscape S) \<and>
         layer (landscape S') capacity = layer (landscape S) capacity \<and>
         length (layer (landscape S') items) = dim (landscape S) * dim (landscape S) \<and>
         (\<forall>i<dim (landscape S) * dim (landscape S).
            0 \<le> layer (landscape S') items ! i \<and>
            layer (landscape S') items ! i \<le> real_of_int \<lfloor>layer (landscape S') capacity ! i * max_item_cap P\<rfloor>)"
proof -
  let ?L = "landscape S"
  let ?DD = "dim ?L * dim ?L"
  let ?B = "timestep_before_resolve E P R S"
  let ?grown = "grow_items P R ?DD (layer ?L capacity) (layer ?L items)"
  have before: "dim (landscape ?B) = dim ?L" "layer (landscape ?B) capacity = layer ?L capacity"
    "layer (landscape ?B) items = ?grown"
    by (simp_all add: timestep_before_resolve_def update_occupancy_def Let_def)
  from step obtain S2 where S2: "resolve_grazing_and_attacks E P R ?B = Inr S2"
    and S': "S' = S2\<lparr>landscape := update_occupancy E (landscape S2) (pop (agents S2))\<rparr>"
    by (auto simp: simulate_timestep_def split: sum.splits)
  let ?grazed = "snd (graze E R (dim ?L) 0 (pop (agents ?B)) ?grown)"
  have after: "dim (landscape S') = dim ?L" "layer (landscape S') capacity = layer ?L capacity"
    "layer (landscape S') items = ?grazed"
    using resolve_landscape [OF S2] before by (simp_all add: S' update_occupancy_frame)
  have lg: "length ?grown = ?DD"
    using grow_items_nth [of ?DD "layer ?L items" P R "layer ?L capacity"] len by simp
  have cells: "0 \<le> ?grazed ! i \<and> ?grazed ! i \<le> real_of_int \<lfloor>layer ?L capacity ! i * max_item_cap P\<rfloor>"
    if i: "i < ?DD" for i
  proof -
    note g = grow_items_bounds [OF len inv i, of R]
    have z: "(0 \<le> ?grown ! i \<longrightarrow> 0 \<le> ?grazed ! i) \<and> ?grazed ! i \<le> ?grown ! i"
      using graze_items [of E R "dim ?L" 0 "pop (agents ?B)" ?grown] lg i by simp
    show ?thesis using g z by linarith
  qed
  have lz: "length ?grazed = ?DD"
    using graze_items [of E R "dim ?L" 0 "pop (agents ?B)" ?grown] lg by simp
  show ?thesis using after lz cells by simp
qed

subsection \<open>Conflict resolution\<close>

lemma select_attacked_length:
  "length (select_attacked R agents_pop k is) =
   length (filter (\<lambda>i. attacked_potentially agents_pop i \<noteq> []) is)"
  by (induction "is" arbitrary: k) (simp_all add: Let_def)

lemma select_attacked_co_located:
  assumes "v \<in> set (select_attacked R agents_pop k is)"
  shows "\<exists>i\<in>set is. v < length agents_pop \<and> handling (agents_pop ! v) \<and>
           pos (agents_pop ! v) = pos (agents_pop ! i) \<and> v \<noteq> i"
  using assms
proof (induction "is" arbitrary: k)
  case Nil
  then show ?case by simp
next
  case (Cons i "is")
  let ?pot = "attacked_potentially agents_pop i"
  show ?case
  proof (cases "?pot = []")
    case True
    with Cons show ?thesis by (auto simp: Let_def)
  next
    case False
    let ?f = "uniform_int_distribution 0 (int (length ?pot) - 1) (rind R k)"
    from Cons.prems False
    have "v = ?pot ! nat ?f \<or> v \<in> set (select_attacked R agents_pop (Suc k) is)"
      by (simp add: Let_def)
    then show ?thesis
    proof
      assume v: "v = ?pot ! nat ?f"
      have "0 \<le> int (length ?pot) - 1" using False by (cases ?pot) simp_all
      then have "0 \<le> ?f \<and> ?f \<le> int (length ?pot) - 1"
        by (rule uniform_int_distribution_range)
      then have "nat ?f < length ?pot" by linarith
      then have "v \<in> set ?pot" unfolding v by (rule nth_mem)
      then show ?thesis by (auto simp: attacked_potentially_def)
    next
      assume "v \<in> set (select_attacked R agents_pop (Suc k) is)"
      then show ?thesis using Cons.IH by auto
    qed
  qed
qed

lemma resolve_out_of_range_iff:
  "resolve_grazing_and_attacks E P R S = Inl AttackedOutOfRange \<longleftrightarrow>
   (let pop1 = fst (graze E R (dim (landscape S)) 0 (pop (agents S)) (layer (landscape S) items))
    in \<exists>i\<in>set (collect_attackers E (dim (landscape S)) pop1 (layer (landscape S) handlers)).
         attacked_potentially pop1 i = [])"
proof -
  have less: "length (filter Q xs) < length xs \<longleftrightarrow> (\<exists>x\<in>set xs. \<not> Q x)" for Q :: "nat \<Rightarrow> bool" and xs
    by (induction xs) (auto simp: less_Suc_eq_le)
  show ?thesis
    by (simp add: resolve_grazing_and_attacks_def make_conflicts_def select_attacked_length
        less Let_def)
qed

lemma example_externals_fields:
  "cell example_externals = example_cell \<and>
   handle example_externals = handling \<and>
   flee example_externals =
     (\<lambda>L r k a. a\<lparr>pos := example_wrap L (Coordinate_plus (pos a) (r, r)), handling := False\<rparr>)"
  by (simp add: example_externals_def)

lemma upt_small:
  "[0..<3] = [0, 1, 2] \<and> [0..<2] = [0, 1]"
  by (simp add: upt_rec)

text \<open>
  C1. The claim says that the attacked list has one entry per collected attacker and that
  the resolution never reads it out of bounds. An attacker is collected when the
  (smoothed) handlers layer is at least 1 on its cell; it adds a victim only when a
  handling agent stands on its cell. Below, agent 0 stands alone on cell (0, 0) where the
  layer is 1, agent 1 shares cell (1, 0) with the handling agent 2: the attackers are
  \<open>[0, 1]\<close>, the attacked list is \<open>[2]\<close>, and the loop that pairs them reads
  \<open>attacked_inds[1]\<close> past the end.
\<close>

theorem resolve_reads_attacked_out_of_range:
  "collect_attackers example_externals 32
     [\<lparr>pos = (0, 0), foraging = False, handling = False, handle_time = 0\<rparr>,
      \<lparr>pos = (1, 0), foraging = False, handling = False, handle_time = 0\<rparr>,
      \<lparr>pos = (1, 0), foraging = False, handling = True, handle_time = 3\<rparr>]
     ((replicate 1024 0)[0 := 1, 1 := 1]) = [0, 1] \<and>
   select_attacked R
     [\<lparr>pos = (0, 0), foraging = False, handling = False, handle_time = 0\<rparr>,
      \<lparr>pos = (1, 0), foraging = False, handling = False, handle_time = 0\<rparr>,
      \<lparr>pos = (1, 0), foraging = False, handling = True, handle_time = 3\<rparr>]
     0 [0, 1] = [2] \<and>
   resolve_grazing_and_attacks example_externals P R
     \<lparr>landscape = \<lparr>dim = 32, layer = (\<lambda>l. if l = handlers then (replicate 1024 0)[0 := 1, 1 := 1] else replicate 1024 0)\<rparr>,
      agents = \<lparr>pop = [\<lparr>pos = (0, 0), foraging = False, handling = False, handle_time = 0\<rparr>,
                       \<lparr>pos = (1, 0), foraging = False, handling = False, handle_time = 0\<rparr>,
                       \<lparr>pos = (1, 0), foraging = False, handling = True, handle_time = 3\<rparr>],
                tmp_pop = tp, ann = an, tmp_ann = ta, fitness = ft\<rparr>\<rparr>
   = Inl AttackedOutOfRange"
  by (simp add: resolve_grazing_and_attacks_def collect_attackers_def attacked_potentially_def
      make_conflicts_def example_cell_def upt_small example_externals_fields uniform_int_distribution_def Let_def)

lemma graze_ignores_shuffle:
  "graze E (R\<lparr>shuffle := sh\<rparr>) d i as its = graze E R d i as its"
  by (induction as arbitrary: i its) simp_all

lemma select_attacked_ignores_shuffle:
  "select_attacked (R\<lparr>shuffle := sh\<rparr>) agents_pop k is = select_attacked R agents_pop k is"
  by (induction "is" arbitrary: k) (simp_all add: Let_def)

lemma resolve_ignores_shuffle:
  "resolve_grazing_and_attacks E P (R\<lparr>shuffle := sh\<rparr>) S = resolve_grazing_and_attacks E P R S"
  by (simp add: resolve_grazing_and_attacks_def graze_ignores_shuffle
      select_attacked_ignores_shuffle Let_def split: sum.split)

text \<open>
  C2. The claim says that the fights are resolved in the shuffled order of the pairs, so
  that no agent index has priority. The code shuffles \<open>conflicts_v\<close> and then resolves
  the fights by \<open>attacking_inds_[i]\<close> and \<open>attacked_inds[i]\<close>, in the order of
  collection. Below, agents 0 and 1 both attack the handling agent 2 on their cell: for
  every permutation that the shuffle may apply, agent 0 takes over the item and agent 1
  finds its victim no longer handling.
\<close>

theorem resolve_lowest_index_wins:
  "\<forall>sh. \<exists>S'.
     resolve_grazing_and_attacks example_externals P (R\<lparr>shuffle := sh\<rparr>)
       \<lparr>landscape = \<lparr>dim = 32, layer = (\<lambda>l. if l = handlers then (replicate 1024 0)[0 := 1] else replicate 1024 0)\<rparr>,
        agents = \<lparr>pop = [\<lparr>pos = (0, 0), foraging = False, handling = False, handle_time = 0\<rparr>,
                         \<lparr>pos = (0, 0), foraging = False, handling = False, handle_time = 0\<rparr>,
                         \<lparr>pos = (0, 0), foraging = False, handling = True, handle_time = 3\<rparr>],
                  tmp_pop = tp, ann = an, tmp_ann = ta, fitness = ft\<rparr>\<rparr> = Inr S' \<and>
     handling (pop (agents S') ! 0) \<and> handle_time (pop (agents S') ! 0) = 3 \<and>
     \<not> handling (pop (agents S') ! 1)"
  by (simp add: resolve_grazing_and_attacks_def collect_attackers_def attacked_potentially_def
      make_conflicts_def example_cell_def upt_small example_externals_fields
      uniform_int_distribution_def Let_def
      resolve_fights_def fight_step_def)

subsection \<open>Order of the phases of a timestep\<close>

lemma timestep_landscape_ignores_move:
  "landscape (timestep_before_resolve (E\<lparr>move := m\<rparr>) P R S) =
   landscape (timestep_before_resolve E P R S)"
  by (simp add: timestep_before_resolve_def update_occupancy_def Let_def cong: if_cong)

text \<open>
  C3. The claim says that the occupancy layers are recomputed after the movement phase, so
  that conflict resolution consults the handlers layer of the positions after movement.
  \<open>simulate_timestep\<close> calls \<open>update_occupancy\<close> before \<open>move\<close> and after
  \<open>resolve_grazing_and_attacks\<close>, not between the two. Below, the movement phase shifts
  the one handling agent from cell (0, 0) to cell (1, 0): the state handed to conflict
  resolution has the agent on (1, 0) and a handlers layer of 1 on (0, 0) and 0 on (1, 0),
  whereas \<open>update_occupancy\<close> at that point would give 0 and 1.
\<close>

theorem timestep_resolve_sees_occupancy_before_move:
  "(let E = example_externals
            \<lparr>move := (\<lambda>L agents_pop. map (\<lambda>a. a\<lparr>pos := example_wrap L (Coordinate_plus (pos a) (1, 0))\<rparr>) agents_pop)\<rparr>;
        S' = timestep_before_resolve E P R
               \<lparr>landscape = \<lparr>dim = 32, layer = (\<lambda>l. replicate 1024 0)\<rparr>,
                agents = \<lparr>pop = [\<lparr>pos = (0, 0), foraging = False, handling = True, handle_time = 3\<rparr>],
                          tmp_pop = tp, ann = an, tmp_ann = ta, fitness = ft\<rparr>\<rparr>
    in map pos (pop (agents S')) = [(1, 0)] \<and> map handling (pop (agents S')) = [True] \<and>
       layer (landscape S') handlers ! cell E 32 (0, 0) = 1 \<and>
       layer (landscape S') handlers ! cell E 32 (1, 0) = 0 \<and>
       layer (update_occupancy E (landscape S') (pop (agents S'))) handlers ! cell E 32 (0, 0) = 0 \<and>
       layer (update_occupancy E (landscape S') (pop (agents S'))) handlers ! cell E 32 (1, 0) = 1)"
  by (simp add: timestep_before_resolve_def update_occupancy_def example_externals_def
      example_occupancy_def example_role_def example_cell_def example_wrap_def
      Coordinate_plus_def Let_def)

subsection \<open>A new generation\<close>

text \<open>The offspring that the loop body writes to slot \<open>i\<close>, and its network state.\<close>

lemma sprout_slot_fields:
  "pop (sprout_slot E L iparam R p i) = pop p \<and>
   ann (sprout_slot E L iparam R p i) = ann p \<and>
   fitness (sprout_slot E L iparam R p i) = fitness p \<and>
   tmp_pop (sprout_slot E L iparam R p i) =
     (tmp_pop p)[i := sprout E (tmp_pop p ! i)
        (wrap E L (Coordinate_plus (pos (pop p ! rdist R i))
           (uniform_int_distribution (- sprout_radius iparam) (sprout_radius iparam) (fst (coorDist R i)),
            uniform_int_distribution (- sprout_radius iparam) (sprout_radius iparam) (snd (coorDist R i)))))
        (rdist R i)] \<and>
   tmp_ann (sprout_slot E L iparam R p i) = (tmp_ann p)[i := ann p ! rdist R i]"
  by (simp add: sprout_slot_def assign_def Let_def)

lemma stage_loop:
  assumes "n \<le> length (tmp_pop p)" and "n \<le> length (tmp_ann p)"
  shows "pop (foldl (sprout_slot E L iparam R) p [0..<n]) = pop p \<and>
         ann (foldl (sprout_slot E L iparam R) p [0..<n]) = ann p \<and>
         fitness (foldl (sprout_slot E L iparam R) p [0..<n]) = fitness p \<and>
         length (tmp_pop (foldl (sprout_slot E L iparam R) p [0..<n])) = length (tmp_pop p) \<and>
         length (tmp_ann (foldl (sprout_slot E L iparam R) p [0..<n])) = length (tmp_ann p) \<and>
         (\<forall>i<length (tmp_pop p). tmp_pop (foldl (sprout_slot E L iparam R) p [0..<n]) ! i =
            (if i < n
             then sprout E (tmp_pop p ! i)
                   (wrap E L (Coordinate_plus (pos (pop p ! rdist R i))
                      (uniform_int_distribution (- sprout_radius iparam) (sprout_radius iparam) (fst (coorDist R i)),
                       uniform_int_distribution (- sprout_radius iparam) (sprout_radius iparam) (snd (coorDist R i)))))
                   (rdist R i)
             else tmp_pop p ! i)) \<and>
         (\<forall>i<length (tmp_ann p). tmp_ann (foldl (sprout_slot E L iparam R) p [0..<n]) ! i =
            (if i < n then ann p ! rdist R i else tmp_ann p ! i))"
  using assms
proof (induction n)
  case 0
  show ?case by simp
next
  case (Suc n)
  let ?q = "foldl (sprout_slot E L iparam R) p [0..<n]"
  have ih: "pop ?q = pop p" "ann ?q = ann p" "fitness ?q = fitness p"
    "length (tmp_pop ?q) = length (tmp_pop p)" "length (tmp_ann ?q) = length (tmp_ann p)"
    "\<And>i. i < length (tmp_pop p) \<Longrightarrow> tmp_pop ?q ! i =
            (if i < n
             then sprout E (tmp_pop p ! i)
                   (wrap E L (Coordinate_plus (pos (pop p ! rdist R i))
                      (uniform_int_distribution (- sprout_radius iparam) (sprout_radius iparam) (fst (coorDist R i)),
                       uniform_int_distribution (- sprout_radius iparam) (sprout_radius iparam) (snd (coorDist R i)))))
                   (rdist R i)
             else tmp_pop p ! i)"
    "\<And>i. i < length (tmp_ann p) \<Longrightarrow> tmp_ann ?q ! i =
            (if i < n then ann p ! rdist R i else tmp_ann p ! i)"
    using Suc by simp_all
  have n: "n < length (tmp_pop p)" "n < length (tmp_ann p)" using Suc.prems by simp_all
  have unfold: "foldl (sprout_slot E L iparam R) p [0..<Suc n] = sprout_slot E L iparam R ?q n"
    by simp
  note f = sprout_slot_fields [of E L iparam R ?q n]
  show ?case
    unfolding unfold using f ih n by (auto simp: nth_list_update)
qed

text \<open>
  C8. Let the live and staging arrays have \<open>N\<close> slots, the ancestors drawn be indices
  below \<open>N\<close> and the sprout radius not be negative. After the loop of
  \<open>create_new_generation\<close>, staging slot \<open>i\<close> holds the individual sprouted at the
  wrapped sum of the position of its ancestor and an offset within the radius on each
  axis, and the staging network slot \<open>i\<close> holds the network state of that ancestor; the
  live population and the live networks are as before, also after the mutation of the
  staging networks. The result exchanges live and staging: the live arrays are the
  staged population and the mutated staging networks, the staging arrays the former
  live ones.
\<close>

theorem create_new_generation_staging:
  assumes len: "length (tmp_pop population) = length (pop population)"
      "length (tmp_ann population) = length (pop population)"
      "length (ann population) = length (pop population)"
    and anc: "\<forall>i<length (pop population). rdist R i < length (pop population)"
    and rad: "0 \<le> sprout_radius iparam"
  shows "(let N = length (pop population);
              staged = stage_offspring E L iparam R population;
              mutated = stage_generation E L iparam fixed R population
          in pop staged = pop population \<and> ann staged = ann population \<and>
             length (tmp_pop staged) = N \<and> length (tmp_ann staged) = N \<and>
             (\<forall>i<N. \<exists>dx dy.
                 - sprout_radius iparam \<le> dx \<and> dx \<le> sprout_radius iparam \<and>
                 - sprout_radius iparam \<le> dy \<and> dy \<le> sprout_radius iparam \<and>
                 tmp_pop staged ! i =
                   sprout E (tmp_pop population ! i)
                     (wrap E L (Coordinate_plus (pos (pop population ! rdist R i)) (dx, dy)))
                     (rdist R i) \<and>
                 tmp_ann staged ! i = ann population ! rdist R i) \<and>
             pop mutated = pop population \<and> ann mutated = ann population \<and>
             tmp_pop mutated = tmp_pop staged \<and>
             tmp_ann mutated = mutate E iparam fixed (tmp_ann staged) \<and>
             create_new_generation E L iparam fixed R population =
               mutated\<lparr>pop := tmp_pop mutated, tmp_pop := pop population,
                        ann := tmp_ann mutated, tmp_ann := ann population\<rparr>)"
proof -
  let ?N = "length (pop population)"
  let ?r = "sprout_radius iparam"
  let ?staged = "stage_offspring E L iparam R population"
  let ?mutated = "stage_generation E L iparam fixed R population"
  have loop: "pop ?staged = pop population" "ann ?staged = ann population"
    "length (tmp_pop ?staged) = ?N" "length (tmp_ann ?staged) = ?N"
    "\<And>i. i < ?N \<Longrightarrow> tmp_pop ?staged ! i =
        sprout E (tmp_pop population ! i)
          (wrap E L (Coordinate_plus (pos (pop population ! rdist R i))
             (uniform_int_distribution (- ?r) ?r (fst (coorDist R i)),
              uniform_int_distribution (- ?r) ?r (snd (coorDist R i)))))
          (rdist R i)"
    "\<And>i. i < ?N \<Longrightarrow> tmp_ann ?staged ! i = ann population ! rdist R i"
    using stage_loop [of ?N population E L iparam R] len
    by (simp_all add: stage_offspring_def)
  have range: "- ?r \<le> uniform_int_distribution (- ?r) ?r x \<and>
      uniform_int_distribution (- ?r) ?r x \<le> ?r" for x
    using uniform_int_distribution_range [of "- ?r" ?r x] rad by simp
  have slots: "\<exists>dx dy. - ?r \<le> dx \<and> dx \<le> ?r \<and> - ?r \<le> dy \<and> dy \<le> ?r \<and>
      tmp_pop ?staged ! i =
        sprout E (tmp_pop population ! i)
          (wrap E L (Coordinate_plus (pos (pop population ! rdist R i)) (dx, dy))) (rdist R i) \<and>
      tmp_ann ?staged ! i = ann population ! rdist R i" if "i < ?N" for i
    using loop(5,6) [OF that] range by blast
  have mut: "pop ?mutated = pop population" "ann ?mutated = ann population"
    "tmp_pop ?mutated = tmp_pop ?staged"
    "tmp_ann ?mutated = mutate E iparam fixed (tmp_ann ?staged)"
    using loop(1,2) by (simp_all add: stage_generation_def Let_def)
  have swap: "create_new_generation E L iparam fixed R population =
      ?mutated\<lparr>pop := tmp_pop ?mutated, tmp_pop := pop population,
                ann := tmp_ann ?mutated, tmp_ann := ann population\<rparr>"
    using mut(1,2) by (simp add: create_new_generation_def Let_def)
  show ?thesis
    unfolding Let_def using loop(1-4) slots mut swap by blast
qed

theorem create_new_generation_staging_witness:
  "tmp_ann (stage_offspring example_externals \<lparr>dim = 32, layer = (\<lambda>l. replicate 1024 0)\<rparr>
      \<lparr>max_item_cap = 5, item_growth = 1 / 2, detection_rate = 1 / 5, flee_radius = 2, sprout_radius = 2\<rparr>
      \<lparr>grow = (\<lambda>i. True), detect = (\<lambda>i. True), rind = (\<lambda>k. 0), shuffle = (\<lambda>c. c),
       coorDist = (\<lambda>i. (0, 0)), initPos = (\<lambda>i. (0, 0)), rdist = (\<lambda>i. 1 - i)\<rparr>
      \<lparr>pop = [\<lparr>pos = (0, 0), foraging = True, handling = False, handle_time = 0\<rparr>,
              \<lparr>pos = (5, 5), foraging = False, handling = False, handle_time = 0\<rparr>],
       tmp_pop = [\<lparr>pos = (9, 9), foraging = True, handling = True, handle_time = 1\<rparr>,
                  \<lparr>pos = (9, 9), foraging = True, handling = True, handle_time = 1\<rparr>],
       ann = [[1], [2]], tmp_ann = [[0], [0]], fitness = [1, 3]\<rparr>) ! 0 = [2] \<and>
   pop (stage_generation example_externals \<lparr>dim = 32, layer = (\<lambda>l. replicate 1024 0)\<rparr>
      \<lparr>max_item_cap = 5, item_growth = 1 / 2, detection_rate = 1 / 5, flee_radius = 2, sprout_radius = 2\<rparr>
      True
      \<lparr>grow = (\<lambda>i. True), detect = (\<lambda>i. True), rind = (\<lambda>k. 0), shuffle = (\<lambda>c. c),
       coorDist = (\<lambda>i. (0, 0)), initPos = (\<lambda>i. (0, 0)), rdist = (\<lambda>i. 1 - i)\<rparr>
      \<lparr>pop = [\<lparr>pos = (0, 0), foraging = True, handling = False, handle_time = 0\<rparr>,
              \<lparr>pos = (5, 5), foraging = False, handling = False, handle_time = 0\<rparr>],
       tmp_pop = [\<lparr>pos = (9, 9), foraging = True, handling = True, handle_time = 1\<rparr>,
                  \<lparr>pos = (9, 9), foraging = True, handling = True, handle_time = 1\<rparr>],
       ann = [[1], [2]], tmp_ann = [[0], [0]], fitness = [1, 3]\<rparr>) =
     [\<lparr>pos = (0, 0), foraging = True, handling = False, handle_time = 0\<rparr>,
      \<lparr>pos = (5, 5), foraging = False, handling = False, handle_time = 0\<rparr>]"
proof -
  let ?L = "\<lparr>dim = 32, layer = (\<lambda>l. replicate 1024 (0::real))\<rparr>"
  let ?P = "\<lparr>max_item_cap = 5, item_growth = 1 / 2, detection_rate = 1 / 5, flee_radius = 2, sprout_radius = 2\<rparr>"
  let ?R = "\<lparr>grow = (\<lambda>i. True), detect = (\<lambda>i. True), rind = (\<lambda>k. 0), shuffle = (\<lambda>c. c),
       coorDist = (\<lambda>i. (0, 0)), initPos = (\<lambda>i. (0, 0)), rdist = (\<lambda>i. 1 - i)\<rparr>"
  let ?A = "\<lparr>pop = [\<lparr>pos = (0, 0), foraging = True, handling = False, handle_time = 0\<rparr>,
              \<lparr>pos = (5, 5), foraging = False, handling = False, handle_time = 0\<rparr>],
       tmp_pop = [\<lparr>pos = (9, 9), foraging = True, handling = True, handle_time = 1\<rparr>,
                  \<lparr>pos = (9, 9), foraging = True, handling = True, handle_time = 1\<rparr>],
       ann = [[1], [2]], tmp_ann = [[0], [0]], fitness = [1, 3]\<rparr>"
  have l1: "length (tmp_pop ?A) = length (pop ?A)" by simp
  have l2: "length (tmp_ann ?A) = length (pop ?A)" by simp
  have l3: "length (ann ?A) = length (pop ?A)" by simp
  have anc: "\<forall>i<length (pop ?A). rdist ?R i < length (pop ?A)" by auto
  have rad: "0 \<le> sprout_radius ?P" by simp
  note t = create_new_generation_staging [OF l1 l2 l3 anc rad, of example_externals ?L True,
      unfolded Let_def]
  have i: "0 < length (pop ?A)" by simp
  from t i have "\<exists>dx dy. tmp_ann (stage_offspring example_externals ?L ?P ?R ?A) ! 0 =
      ann ?A ! rdist ?R 0" by blast
  then have a: "tmp_ann (stage_offspring example_externals ?L ?P ?R ?A) ! 0 = [2]" by simp
  from t have b: "pop (stage_generation example_externals ?L ?P True ?R ?A) = pop ?A" by blast
  show ?thesis using a b by simp
qed

end
